theory Spec2Isabelle
  imports Main "HOL-Library.Multiset" "HOL-Library.AList" "HOL-Library.Char_ord"
    "HOL-Library.List_Lexorder"
begin

section \<open>The persistent store\<close>

text \<open>
  The views of \<^verbatim>\<open>classroom/views/teachers.py\<close> read and write the tables of the
  relational store through the object-relational mapper. The tables are declared in
  \<^verbatim>\<open>classroom/models.py\<close>, which is not among the sources at hand.
\<close>

text \<open>
  Modelled from the spec: the declarations of \<^verbatim>\<open>models.py\<close> (Quiz, Question, Answer,
  Student, Subject, TakenQuiz, StudentAnswer), after section 3 of the specification. A row
  is a record, a foreign key is the primary key of the row it refers to, and a table is
  the list of its rows in the order in which an unordered query returns them.
\<close>

record quiz =
  quiz_pk :: nat
  quiz_name :: string
  quiz_owner :: nat
  quiz_subject :: nat

record question =
  question_pk :: nat
  question_text :: string
  question_quiz :: nat

record answer =
  answer_pk :: nat
  answer_text :: string
  answer_is_correct :: bool
  answer_question :: nat

record date =
  year :: nat
  month :: nat
  day :: nat

record datetime =
  dt_date :: date
  dt_seconds :: nat

record taken_quiz =
  taken_pk :: nat
  taken_student :: nat
  taken_quiz_fk :: nat
  taken_date :: datetime

record student_answer =
  sa_student :: nat
  sa_answer :: nat

record store =
  quizzes :: "quiz list"
  questions :: "question list"
  answers :: "answer list"
  students :: "nat list"
  subjects :: "nat list"
  taken_quizzes :: "taken_quiz list"
  student_answers :: "student_answer list"

text \<open>Primary keys are unique within their table.\<close>

definition unique_pks :: "store \<Rightarrow> bool" where
  "unique_pks s \<longleftrightarrow>
     distinct (map quiz_pk (quizzes s)) \<and>
     distinct (map question_pk (questions s)) \<and>
     distinct (map answer_pk (answers s))"

section \<open>Errors and responses\<close>

datatype error =
  Http404 | DoesNotExist | MultipleObjectsReturned | ValueError | DatabaseError | OSError
  | UnicodeEncodeError

text \<open>
  What a view hands back: an exception that leaves the view (\<open>Http404\<close> becomes the
  not-found page), the rendered template, the template rendered around a bound form that
  carries validation errors, or the redirect after a successful save.
\<close>

datatype target = To_quiz_change_list | To_quiz_change nat | To_question_change nat nat

datatype response = Raised error | Page | Page_with_errors | Redirect target

datatype 'a request = GET | POST 'a

text \<open>
  \<^verbatim>\<open>queryset.get()\<close> wants exactly one row; the argument here is the list of rows that
  match the lookup.
\<close>

definition objects_get :: "'a list \<Rightarrow> error + 'a" where
  "objects_get rows =
     (case rows of
        [] \<Rightarrow> Inl DoesNotExist
      | [x] \<Rightarrow> Inr x
      | _ \<Rightarrow> Inl MultipleObjectsReturned)"

text \<open>
  \<^verbatim>\<open>get_object_or_404(klass, **kwargs)\<close> and the generic views' \<^verbatim>\<open>get_object\<close> both
  call \<^verbatim>\<open>queryset.get()\<close> and turn \<^verbatim>\<open>DoesNotExist\<close>, and nothing else, into
  \<^verbatim>\<open>Http404\<close>.
\<close>

definition get_object_or_404 :: "'a list \<Rightarrow> error + 'a" where
  "get_object_or_404 rows =
     (case objects_get rows of
        Inl DoesNotExist \<Rightarrow> Inl Http404
      | Inl e \<Rightarrow> Inl e
      | Inr x \<Rightarrow> Inr x)"

text \<open>\<^verbatim>\<open>request.user.quizzes.all()\<close>: the reverse side of the quiz's owner.\<close>

definition user_quizzes :: "store \<Rightarrow> nat \<Rightarrow> quiz list" where
  "user_quizzes s user = filter (\<lambda>z. quiz_owner z = user) (quizzes s)"

section \<open>Quiz authoring: \<^verbatim>\<open>QuizUpdateView\<close> and \<^verbatim>\<open>QuizDeleteView\<close>\<close>

text \<open>
  Both views are generic class-based views whose \<^verbatim>\<open>get_queryset\<close> is
  \<^verbatim>\<open>self.request.user.quizzes.all()\<close>. Every handler starts with \<^verbatim>\<open>self.get_object()\<close>,
  which narrows that queryset to the primary key of the URL.

  The field validation of the quiz form comes from \<^verbatim>\<open>models.py\<close>; the check of the name
  is a parameter, and the subject has to be a row of the subject table.
\<close>

definition quiz_get_object :: "store \<Rightarrow> nat \<Rightarrow> nat \<Rightarrow> error + quiz" where
  "quiz_get_object s user pk =
     get_object_or_404 (filter (\<lambda>z. quiz_pk z = pk) (user_quizzes s user))"

definition save_quiz :: "quiz \<Rightarrow> store \<Rightarrow> store" where
  "save_quiz z s =
     s\<lparr>quizzes := map (\<lambda>y. if quiz_pk y = quiz_pk z then z else y) (quizzes s)\<rparr>"

definition QuizUpdateView ::
  "(string \<Rightarrow> bool) \<Rightarrow> store \<Rightarrow> nat \<Rightarrow> (string \<times> nat) request \<Rightarrow> nat \<Rightarrow> response \<times> store" where
  "QuizUpdateView name_ok s user req pk =
     (case quiz_get_object s user pk of
        Inl e \<Rightarrow> (Raised e, s)
      | Inr obj \<Rightarrow>
          (case req of
             GET \<Rightarrow> (Page, s)
           | POST (name, subject) \<Rightarrow>
               if name_ok name \<and> subject \<in> set (subjects s)
               then (Redirect (To_quiz_change (quiz_pk obj)),
                     save_quiz (obj\<lparr>quiz_name := name, quiz_subject := subject\<rparr>) s)
               else (Page_with_errors, s)))"

text \<open>
  Modelled from the spec: the rule on deletion of the foreign keys, which \<^verbatim>\<open>models.py\<close>
  declares. Deleting a quiz removes its questions and their answers with it (the cascade of
  section 3 of the specification).
\<close>

definition delete_quiz :: "quiz \<Rightarrow> store \<Rightarrow> store" where
  "delete_quiz z s =
     (let gone = map question_pk (filter (\<lambda>q. question_quiz q = quiz_pk z) (questions s))
      in s\<lparr>quizzes := filter (\<lambda>y. quiz_pk y \<noteq> quiz_pk z) (quizzes s),
           questions := filter (\<lambda>q. question_quiz q \<noteq> quiz_pk z) (questions s),
           answers := filter (\<lambda>a. answer_question a \<notin> set gone) (answers s)\<rparr>)"

definition QuizDeleteView :: "store \<Rightarrow> nat \<Rightarrow> unit request \<Rightarrow> nat \<Rightarrow> response \<times> store" where
  "QuizDeleteView s user req pk =
     (case quiz_get_object s user pk of
        Inl e \<Rightarrow> (Raised e, s)
      | Inr obj \<Rightarrow>
          (case req of
             GET \<Rightarrow> (Page, s)
           | POST _ \<Rightarrow> (Redirect To_quiz_change_list, delete_quiz obj s)))"

section \<open>Question and answer authoring: \<^verbatim>\<open>question_add\<close> and \<^verbatim>\<open>question_change\<close>\<close>

text \<open>
  One form of the submitted formset, after the fields' normalisation. \<open>af_initial\<close> says
  that the form is one of the first \<^verbatim>\<open>INITIAL_FORMS\<close> forms of the submission, the forms
  the page rendered for the stored answers; the others are extra forms, for new answers.
  \<open>af_id\<close> is the hidden id field and \<open>af_delete\<close> the deletion checkbox.
\<close>

record answer_form =
  af_initial :: bool
  af_id :: "nat option"
  af_text :: string
  af_is_correct :: bool
  af_delete :: bool

text \<open>
  \<^verbatim>\<open>QuestionForm\<close> and \<^verbatim>\<open>BaseAnswerInlineFormSet\<close> live in \<^verbatim>\<open>classroom/forms.py\<close>, which
  is not among the sources; what they check beyond the arguments of
  \<^verbatim>\<open>inlineformset_factory\<close> is taken as a parameter: the validation of the text field
  of a question, that of an answer, and the formset's own \<^verbatim>\<open>clean\<close> hook.
\<close>

record forms_py =
  question_text_ok :: "string \<Rightarrow> bool"
  answer_text_ok :: "string \<Rightarrow> bool"
  formset_clean :: "answer_form list \<Rightarrow> bool"

text \<open>A new row gets a key greater than every key of its table.\<close>

definition next_pk :: "nat list \<Rightarrow> nat" where
  "next_pk pks = Suc (fold max pks 0)"

definition find_quiz :: "store \<Rightarrow> nat \<Rightarrow> nat \<Rightarrow> error + quiz" where
  "find_quiz s user pk =
     get_object_or_404 (filter (\<lambda>z. quiz_pk z = pk \<and> quiz_owner z = user) (quizzes s))"

definition find_question :: "store \<Rightarrow> quiz \<Rightarrow> nat \<Rightarrow> error + question" where
  "find_question s z pk =
     get_object_or_404
       (filter (\<lambda>q. question_pk q = pk \<and> question_quiz q = quiz_pk z) (questions s))"

definition question_add ::
  "forms_py \<Rightarrow> store \<Rightarrow> nat \<Rightarrow> string request \<Rightarrow> nat \<Rightarrow> response \<times> store" where
  "question_add F s user req pk =
     (case find_quiz s user pk of
        Inl e \<Rightarrow> (Raised e, s)
      | Inr z \<Rightarrow>
          (case req of
             POST text \<Rightarrow>
               if question_text_ok F text
               then (let new = \<lparr>question_pk = next_pk (map question_pk (questions s)),
                                 question_text = text, question_quiz = quiz_pk z\<rparr>
                     in (Redirect (To_question_change (quiz_pk z) (question_pk new)),
                         s\<lparr>questions := questions s @ [new]\<rparr>))
               else (Page_with_errors, s)
           | GET \<Rightarrow> (Page, s)))"

subsection \<open>The statements a save sends to the database\<close>

datatype db_write =
    Update_question nat string
  | Delete_answer nat
  | Update_answer nat string bool
  | Insert_answer nat string bool

fun apply_write :: "db_write \<Rightarrow> store \<Rightarrow> store" where
  "apply_write (Update_question pk text) s =
     s\<lparr>questions :=
         map (\<lambda>q. if question_pk q = pk then q\<lparr>question_text := text\<rparr> else q) (questions s)\<rparr>"
| "apply_write (Delete_answer pk) s =
     s\<lparr>answers := filter (\<lambda>a. answer_pk a \<noteq> pk) (answers s)\<rparr>"
| "apply_write (Update_answer pk text correct) s =
     s\<lparr>answers :=
         map (\<lambda>a. if answer_pk a = pk
                   then a\<lparr>answer_text := text, answer_is_correct := correct\<rparr> else a)
           (answers s)\<rparr>"
| "apply_write (Insert_answer qpk text correct) s =
     s\<lparr>answers := answers s @
         [\<lparr>answer_pk = next_pk (map answer_pk (answers s)), answer_text = text,
           answer_is_correct = correct, answer_question = qpk\<rparr>]\<rparr>"

text \<open>The statements that touch the answer table only.\<close>

fun is_answer_write :: "db_write \<Rightarrow> bool" where
  "is_answer_write (Update_question _ _) = False"
| "is_answer_write _ = True"

text \<open>
  For the proofs: the statements that delete or update a stored answer, the key such a
  statement is aimed at, and what a statement, or a sequence of them, does to one row of
  the answer table.
\<close>

fun is_row_write :: "db_write \<Rightarrow> bool" where
  "is_row_write (Delete_answer _) = True"
| "is_row_write (Update_answer _ _ _) = True"
| "is_row_write _ = False"

fun touches :: "db_write \<Rightarrow> nat \<Rightarrow> bool" where
  "touches (Delete_answer pk) k = (pk = k)"
| "touches (Update_answer pk _ _) k = (pk = k)"
| "touches _ k = False"

fun row_step :: "db_write \<Rightarrow> answer \<Rightarrow> answer option" where
  "row_step (Delete_answer pk) a = (if answer_pk a = pk then None else Some a)"
| "row_step (Update_answer pk tx c) a =
     Some (if answer_pk a = pk then a\<lparr>answer_text := tx, answer_is_correct := c\<rparr> else a)"
| "row_step _ a = Some a"

fun row_effect :: "db_write list \<Rightarrow> answer \<Rightarrow> answer option" where
  "row_effect [] a = Some a"
| "row_effect (w # ws) a =
     (case row_step w a of None \<Rightarrow> None | Some a' \<Rightarrow> row_effect ws a')"


text \<open>
  A statement may be rejected by the database. \<open>fault = Some k\<close> says that the statement
  reached after \<open>k\<close> successful ones raises; \<open>None\<close> that none does. Outside a transaction
  every statement that succeeded stays, so \<open>run_writes\<close> returns the store it reached
  together with the error.
\<close>

fun run_writes :: "nat option \<Rightarrow> db_write list \<Rightarrow> store \<Rightarrow> error option \<times> store" where
  "run_writes fault [] s = (None, s)"
| "run_writes fault (w # ws) s =
     (if fault = Some 0 then (Some DatabaseError, s)
      else run_writes (map_option (\<lambda>k. k - 1) fault) ws (apply_write w s))"

text \<open>
  \<^verbatim>\<open>with transaction.atomic():\<close> commits when the block ends normally and rolls back to
  the store at its entry when an exception leaves it; the exception goes on.
\<close>

definition atomic :: "(store \<Rightarrow> error option \<times> store) \<Rightarrow> store \<Rightarrow> error option \<times> store" where
  "atomic body s =
     (case body s of
        (Some e, _) \<Rightarrow> (Some e, s)
      | (None, s') \<Rightarrow> (None, s'))"

subsection \<open>The answer formset\<close>

text \<open>The arguments given to \<^verbatim>\<open>inlineformset_factory\<close>, both with validation switched on.\<close>

definition min_num :: nat where
  "min_num = 2"

definition max_num :: nat where
  "max_num = 10"

text \<open>The bound on the number of submitted forms that the factory derives from \<open>max_num\<close>.\<close>

definition absolute_max :: nat where
  "absolute_max = max_num + 1000"

definition question_answers :: "store \<Rightarrow> nat \<Rightarrow> answer list" where
  "question_answers s qpk = filter (\<lambda>a. answer_question a = qpk) (answers s)"

definition existing_object :: "answer list \<Rightarrow> nat \<Rightarrow> answer option" where
  "existing_object qs pk = find (\<lambda>a. answer_pk a = pk) qs"

text \<open>
  The stored answer a form is bound to. The id of an initial form is looked up among the
  answers of the question, which are the queryset of the formset; an initial form whose id
  is empty or names no answer of the question, and every extra form, stands for a new
  answer that is not stored yet.
\<close>

definition form_instance :: "answer list \<Rightarrow> answer_form \<Rightarrow> answer option" where
  "form_instance qs f =
     (if af_initial f
      then (case af_id f of None \<Rightarrow> None | Some pk \<Rightarrow> existing_object qs pk)
      else None)"

definition has_changed :: "answer list \<Rightarrow> answer_form \<Rightarrow> bool" where
  "has_changed qs f =
     (case form_instance qs f of
        None \<Rightarrow> af_id f \<noteq> None \<or> af_text f \<noteq> [] \<or> af_is_correct f \<or> af_delete f
      | Some a \<Rightarrow> af_text f \<noteq> answer_text a \<or> af_is_correct f \<noteq> answer_is_correct a
          \<or> af_delete f)"

text \<open>An empty form is an extra form that was left as it was rendered.\<close>

definition is_empty_form :: "answer list \<Rightarrow> answer_form \<Rightarrow> bool" where
  "is_empty_form qs f \<longleftrightarrow> \<not> af_initial f \<and> \<not> has_changed qs f"

text \<open>
  The hidden id is a choice among all stored answers, of any question, and may be left
  empty.
\<close>

definition id_is_valid :: "answer list \<Rightarrow> answer_form \<Rightarrow> bool" where
  "id_is_valid all_answers f =
     (case af_id f of None \<Rightarrow> True | Some pk \<Rightarrow> pk \<in> set (map answer_pk all_answers))"

text \<open>
  The form at position \<open>i\<close>: an extra form may stay empty unless it is one of the first
  \<open>min_num\<close> forms, and is not looked at further then; any other form needs a valid id
  and a text that the field accepts.
\<close>

definition form_is_valid ::
  "forms_py \<Rightarrow> answer list \<Rightarrow> answer list \<Rightarrow> nat \<Rightarrow> answer_form \<Rightarrow> bool" where
  "form_is_valid F all_answers qs i f =
     ((\<not> af_initial f \<and> min_num \<le> i \<and> \<not> has_changed qs f) \<or>
      (id_is_valid all_answers f \<and> answer_text_ok F (af_text f)))"

text \<open>
  The answer set a submission asks for: the forms that are neither marked for deletion
  nor empty.
\<close>

definition submitted_answers :: "answer list \<Rightarrow> answer_form list \<Rightarrow> answer_form list" where
  "submitted_answers qs forms = filter (\<lambda>f. \<not> af_delete f \<and> \<not> is_empty_form qs f) forms"

text \<open>
  \<^verbatim>\<open>formset.is_valid()\<close>: every form not marked for deletion is valid; not more than
  \<open>max_num\<close> forms without those marked for deletion (\<^verbatim>\<open>validate_max\<close>) and not more
  than \<open>absolute_max\<close> forms in all; not fewer than
  \<open>min_num\<close> forms without those marked for deletion and the empty ones
  (\<^verbatim>\<open>validate_min\<close>); and the \<^verbatim>\<open>clean\<close> hook of the formset class accepts the forms.
\<close>

definition formset_is_valid ::
  "forms_py \<Rightarrow> answer list \<Rightarrow> answer list \<Rightarrow> answer_form list \<Rightarrow> bool" where
  "formset_is_valid F all_answers qs forms =
     (let total = length forms;
          deleted = length (filter af_delete forms);
          empty = length (filter (is_empty_form qs) forms)
      in list_all (\<lambda>(i, f). af_delete f \<or> form_is_valid F all_answers qs i f)
           (enumerate 0 forms)
         \<and> \<not> (int total - int deleted > int max_num \<or> total > absolute_max)
         \<and> \<not> (int total - int deleted - int empty < int min_num)
         \<and> formset_clean F forms)"

text \<open>
  \<^verbatim>\<open>formset.save()\<close>: first the initial forms (skip a form that is bound to no stored
  answer, delete the answer when the form is marked, update it when the form differs from
  it), then the extra forms (insert unless the form is empty or marked). Nothing is done
  about a stored answer that no form is bound to.
\<close>

definition save_existing :: "answer list \<Rightarrow> answer_form \<Rightarrow> db_write list" where
  "save_existing qs f =
     (case form_instance qs f of
        None \<Rightarrow> []
      | Some a \<Rightarrow>
          if af_delete f then [Delete_answer (answer_pk a)]
          else if has_changed qs f
          then [Update_answer (answer_pk a) (af_text f) (af_is_correct f)]
          else [])"

definition save_new :: "answer list \<Rightarrow> nat \<Rightarrow> answer_form \<Rightarrow> db_write list" where
  "save_new qs qpk f =
     (if \<not> has_changed qs f then []
      else if af_delete f then []
      else [Insert_answer qpk (af_text f) (af_is_correct f)])"

definition formset_save :: "answer list \<Rightarrow> nat \<Rightarrow> answer_form list \<Rightarrow> db_write list" where
  "formset_save qs qpk forms =
     concat (map (save_existing qs) (filter af_initial forms)) @
     concat (map (save_new qs qpk) (filter (\<lambda>f. \<not> af_initial f) forms))"

definition form_save :: "question \<Rightarrow> string \<Rightarrow> db_write list" where
  "form_save q text = [Update_question (question_pk q) text]"

definition question_change ::
  "forms_py \<Rightarrow> nat option \<Rightarrow> store \<Rightarrow> nat \<Rightarrow> (string \<times> answer_form list) request \<Rightarrow> nat \<Rightarrow> nat
     \<Rightarrow> response \<times> store" where
  "question_change F fault s user req quiz_pk' question_pk' =
     (case find_quiz s user quiz_pk' of
        Inl e \<Rightarrow> (Raised e, s)
      | Inr z \<Rightarrow>
          (case find_question s z question_pk' of
             Inl e \<Rightarrow> (Raised e, s)
           | Inr q \<Rightarrow>
               (case req of
                  POST (text, forms) \<Rightarrow>
                    (let qs = question_answers s (question_pk q)
                     in if question_text_ok F text \<and> formset_is_valid F (answers s) qs forms
                        then (case atomic (run_writes fault
                                     (form_save q text @ formset_save qs (question_pk q) forms)) s of
                                (Some e, s') \<Rightarrow> (Raised e, s')
                              | (None, s') \<Rightarrow> (Redirect (To_quiz_change (quiz_pk z)), s'))
                        else (Page_with_errors, s))
                | GET \<Rightarrow> (Page, s))))"

section \<open>Grading review: \<^verbatim>\<open>view_students_answers\<close>\<close>

text \<open>The template context the view renders.\<close>

record review_context =
  ctx_quiz :: quiz
  ctx_answers :: "(string \<times> answer list) list"
  ctx_students_answers :: "answer list"
  ctx_student :: nat

text \<open>\<^verbatim>\<open>quiz.questions.all()\<close>, and \<^verbatim>\<open>question.answers.all()\<close> is \<open>question_answers\<close>.\<close>

definition quiz_questions :: "store \<Rightarrow> quiz \<Rightarrow> question list" where
  "quiz_questions s z = filter (\<lambda>q. question_quiz q = quiz_pk z) (questions s)"

text \<open>
  The dictionary comprehension \<^verbatim>\<open>{question.text: question.answers.all() for question in
  questions}\<close>. A Python dictionary keeps its keys in the order of their first insertion, and
  storing under a key that is present replaces the value in place; the association list
  with \<open>AList.update\<close> behaves so.
\<close>

fun answers_dict ::
  "store \<Rightarrow> question list \<Rightarrow> (string \<times> answer list) list \<Rightarrow> (string \<times> answer list) list" where
  "answers_dict s [] d = d"
| "answers_dict s (q # qs) d =
     answers_dict s qs
       (AList.update (question_text q) (question_answers s (question_pk q)) d)"

text \<open>\<^verbatim>\<open>answer.student_answer.filter(student=student).exists()\<close>\<close>

definition selected_by :: "store \<Rightarrow> nat \<Rightarrow> answer \<Rightarrow> bool" where
  "selected_by s student a =
     list_ex (\<lambda>r. sa_answer r = answer_pk a \<and> sa_student r = student) (student_answers s)"

text \<open>The two nested loops that fill \<^verbatim>\<open>students_answers\<close>.\<close>

fun answer_loop :: "store \<Rightarrow> nat \<Rightarrow> answer list \<Rightarrow> answer list \<Rightarrow> answer list" where
  "answer_loop s student [] students_answers = students_answers"
| "answer_loop s student (a # question_answer) students_answers =
     answer_loop s student question_answer
       (if selected_by s student a then students_answers @ [a] else students_answers)"

fun question_loop :: "store \<Rightarrow> nat \<Rightarrow> answer list list \<Rightarrow> answer list \<Rightarrow> answer list" where
  "question_loop s student [] students_answers = students_answers"
| "question_loop s student (question_answer # all_answers) students_answers =
     question_loop s student all_answers
       (answer_loop s student question_answer students_answers)"

definition view_students_answers :: "store \<Rightarrow> nat \<Rightarrow> nat \<Rightarrow> nat \<Rightarrow> error + review_context" where
  "view_students_answers s user quiz_pk' student_pk =
     (case find_quiz s user quiz_pk' of
        Inl e \<Rightarrow> Inl e
      | Inr z \<Rightarrow>
          (case get_object_or_404 (filter (\<lambda>p. p = student_pk) (students s)) of
             Inl e \<Rightarrow> Inl e
           | Inr student \<Rightarrow>
               (case objects_get
                       (filter (\<lambda>y. quiz_pk y = quiz_pk' \<and> quiz_owner y = user) (quizzes s)) of
                  Inl e \<Rightarrow> Inl e
                | Inr z' \<Rightarrow>
                    (let qs = quiz_questions s z';
                         answers = answers_dict s qs [];
                         all_answers = map (\<lambda>q. question_answers s (question_pk q)) qs;
                         students_answers = question_loop s student all_answers []
                     in Inr \<lparr>ctx_quiz = z, ctx_answers = answers,
                             ctx_students_answers = students_answers,
                             ctx_student = student\<rparr>))))"

section \<open>PDF export: \<^verbatim>\<open>get_quiz_in_pdf\<close>\<close>

text \<open>
  The document is modelled as the sequence of cells written to it, each a full-width line
  (\<^verbatim>\<open>cell(0, 10, txt=..., ln=1)\<close>) in the font that is current when it is written.
  Positions on the page and page breaks are left to the library. The font family is
  \<^verbatim>\<open>'Times'\<close> throughout; the style \<^verbatim>\<open>'B'\<close> is \<open>Bold\<close> and the empty style is
  \<open>Regular\<close>.
\<close>

datatype font_style = Bold | Regular

record pdf_line =
  line_style :: font_style
  line_size :: nat
  line_text :: string

record fpdf =
  cur_style :: font_style
  cur_size :: nat
  cells :: "pdf_line list"

definition FPDF :: fpdf where
  "FPDF = \<lparr>cur_style = Regular, cur_size = 12, cells = []\<rparr>"

definition set_font :: "font_style \<Rightarrow> nat \<Rightarrow> fpdf \<Rightarrow> fpdf" where
  "set_font style size' pdf = pdf\<lparr>cur_style := style, cur_size := size'\<rparr>"

definition cell :: "string \<Rightarrow> fpdf \<Rightarrow> fpdf" where
  "cell txt' pdf =
     pdf\<lparr>cells := cells pdf @
       [\<lparr>line_style = cur_style pdf, line_size = cur_size pdf, line_text = txt'\<rparr>]\<rparr>"

text \<open>The decimal digits of a number, as an f-string formats an \<^verbatim>\<open>int\<close>.\<close>

fun str_nat :: "nat \<Rightarrow> string" where
  "str_nat n =
     (if n < 10 then [''0123456789'' ! n]
      else str_nat (n div 10) @ [''0123456789'' ! (n mod 10)])"

declare str_nat.simps [simp del]

text \<open>The inner loop, over \<^verbatim>\<open>question.answers.all()\<close>, with its counter.\<close>

fun answers_loop :: "answer list \<Rightarrow> nat \<Rightarrow> fpdf \<Rightarrow> fpdf" where
  "answers_loop [] answer_lines pdf = pdf"
| "answers_loop (a # rest) answer_lines pdf =
     answers_loop rest (answer_lines + 1)
       (cell (str_nat answer_lines @ ''. '' @ answer_text a) pdf)"

text \<open>The outer loop, over the questions of the quiz, with its counter.\<close>

fun questions_loop :: "store \<Rightarrow> question list \<Rightarrow> nat \<Rightarrow> fpdf \<Rightarrow> fpdf" where
  "questions_loop s [] question_lines pdf = pdf"
| "questions_loop s (q # rest) question_lines pdf =
     questions_loop s rest (question_lines + 1)
       (answers_loop (question_answers s (question_pk q)) 1
          (cell []
             (set_font Regular 14
                (cell (str_nat question_lines @ ''. '' @ question_text q)
                   (set_font Bold 14
                      (cell [] pdf))))))"

text \<open>
  \<^verbatim>\<open>pdf.output(f'{quiz.name}.pdf')\<close> writes the document to a file of that name in the
  working directory of the process, and the view opens that file again for the response.
  The call can raise: the file system may refuse the path (\<^verbatim>\<open>FileNotFoundError\<close>, an
  \<^verbatim>\<open>OSError\<close>, for a name that points into a directory that is not there, and the like),
  and the library refuses text that the encoding of its built-in font does not have
  (\<^verbatim>\<open>UnicodeEncodeError\<close>). What the call does with a given name and document is a
  parameter, \<open>pdf_output\<close>: the error it raises, or \<open>None\<close> when the file is written. The
  view returns the name of the file and the cells of the document.
\<close>

definition get_quiz_in_pdf ::
  "(string \<Rightarrow> pdf_line list \<Rightarrow> error option) \<Rightarrow> store \<Rightarrow> nat \<Rightarrow> nat
     \<Rightarrow> error + string \<times> pdf_line list" where
  "get_quiz_in_pdf pdf_output s user quiz_pk' =
     (case find_quiz s user quiz_pk' of
        Inl e \<Rightarrow> Inl e
      | Inr z \<Rightarrow>
          (let pdf = set_font Regular 14 (cell (quiz_name z) (set_font Bold 16 FPDF))
           in case objects_get
                     (filter (\<lambda>y. quiz_pk y = quiz_pk' \<and> quiz_owner y = user) (quizzes s)) of
                Inl e \<Rightarrow> Inl e
              | Inr z' \<Rightarrow>
                  (let pdf = questions_loop s (quiz_questions s z') 1 pdf
                   in case pdf_output (quiz_name z @ ''.pdf'') (cells pdf) of
                        Some e \<Rightarrow> Inl e
                      | None \<Rightarrow> Inr (quiz_name z @ ''.pdf'', cells pdf))))"

text \<open>
  The document as the specification describes it: the title line, then for every question,
  numbered from 1 in catalog order, a blank line, the heading, a blank line and the
  answers, numbered from 1 for each question.
\<close>

definition title_line :: "quiz \<Rightarrow> pdf_line" where
  "title_line z = \<lparr>line_style = Bold, line_size = 16, line_text = quiz_name z\<rparr>"

definition blank_line :: pdf_line where
  "blank_line = \<lparr>line_style = Regular, line_size = 14, line_text = []\<rparr>"

definition heading_line :: "nat \<Rightarrow> question \<Rightarrow> pdf_line" where
  "heading_line i q =
     \<lparr>line_style = Bold, line_size = 14, line_text = str_nat i @ ''. '' @ question_text q\<rparr>"

definition answer_line :: "nat \<Rightarrow> answer \<Rightarrow> pdf_line" where
  "answer_line j a =
     \<lparr>line_style = Regular, line_size = 14, line_text = str_nat j @ ''. '' @ answer_text a\<rparr>"

definition question_block :: "store \<Rightarrow> nat \<Rightarrow> question \<Rightarrow> pdf_line list" where
  "question_block s i q =
     [blank_line, heading_line i q, blank_line] @
     map (\<lambda>(j, a). answer_line j a) (enumerate 1 (question_answers s (question_pk q)))"

definition quiz_document :: "store \<Rightarrow> quiz \<Rightarrow> pdf_line list" where
  "quiz_document s z =
     title_line z #
     concat (map (\<lambda>(i, q). question_block s i q) (enumerate 1 (quiz_questions s z)))"

section \<open>Analytics: \<^verbatim>\<open>get_analytics_by_count_taken_quizzes\<close>\<close>

text \<open>\<^verbatim>\<open>TruncDate('date')\<close> keeps the calendar date of the timestamp.\<close>

definition TruncDate :: "datetime \<Rightarrow> date" where
  "TruncDate t = dt_date t"

text \<open>
  \<^verbatim>\<open>strftime("%m/%d/%Y")\<close>: month and day as two digits, the year as four, padded with
  zeros.
\<close>

definition zero_pad :: "nat \<Rightarrow> string \<Rightarrow> string" where
  "zero_pad w digits = replicate (w - length digits) (CHR ''0'') @ digits"

definition strftime :: "date \<Rightarrow> string" where
  "strftime d =
     zero_pad 2 (str_nat (month d)) @ ''/'' @ zero_pad 2 (str_nat (day d)) @ ''/'' @
     zero_pad 4 (str_nat (year d))"

text \<open>
  \<^verbatim>\<open>TakenQuiz.objects.select_related('quiz').filter(quiz__owner=user)\<close>: the attempts whose
  quiz belongs to the user.
\<close>

definition owned_taken_quizzes :: "store \<Rightarrow> nat \<Rightarrow> taken_quiz list" where
  "owned_taken_quizzes s user =
     filter
       (\<lambda>t. case find (\<lambda>z. quiz_pk z = taken_quiz_fk t) (quizzes s) of
              None \<Rightarrow> False
            | Some z \<Rightarrow> quiz_owner z = user)
       (taken_quizzes s)"

text \<open>
  \<^verbatim>\<open>.values('date_only').annotate(count=Count('id'))\<close> groups the rows by their date and
  counts the rows of each group.
\<close>

fun group_count :: "date list \<Rightarrow> (date \<times> nat) list \<Rightarrow> (date \<times> nat) list" where
  "group_count [] groups = groups"
| "group_count (d # ds) groups =
     group_count ds
       (case map_of groups d of
          None \<Rightarrow> groups @ [(d, 1)]
        | Some c \<Rightarrow> AList.update d (c + 1) groups)"

text \<open>
  The query says \<^verbatim>\<open>.order_by()\<close> with no argument, which removes every ordering, and adds
  none afterwards; the SQL it sends has a \<^verbatim>\<open>GROUP BY\<close> and no \<^verbatim>\<open>ORDER BY\<close>, and the order
  of the groups is the database's choice. \<open>row_order\<close> stands for that choice: it is the
  order in which the database hands out the groups.
\<close>

definition analytics_queryset ::
  "((date \<times> nat) list \<Rightarrow> (date \<times> nat) list) \<Rightarrow> store \<Rightarrow> nat \<Rightarrow> (date \<times> nat) list" where
  "analytics_queryset row_order s user =
     row_order (group_count (map (\<lambda>t. TruncDate (taken_date t)) (owned_taken_quizzes s user)) [])"

text \<open>The loop over the entries, appending to \<^verbatim>\<open>labels\<close> and to \<^verbatim>\<open>data\<close>.\<close>

fun entries_loop :: "(date \<times> nat) list \<Rightarrow> string list \<Rightarrow> nat list \<Rightarrow> string list \<times> nat list" where
  "entries_loop [] labels data = (labels, data)"
| "entries_loop ((date_only, count') # queryset) labels data =
     entries_loop queryset (labels @ [strftime date_only]) (data @ [count'])"

definition get_analytics_by_count_taken_quizzes ::
  "((date \<times> nat) list \<Rightarrow> (date \<times> nat) list) \<Rightarrow> store \<Rightarrow> nat \<Rightarrow> string list \<times> nat list" where
  "get_analytics_by_count_taken_quizzes row_order s user =
     entries_loop (analytics_queryset row_order s user) [] []"

text \<open>Dates in calendar order, for the ascending order the specification speaks of.\<close>

definition date_less :: "date \<Rightarrow> date \<Rightarrow> bool" where
  "date_less a b \<longleftrightarrow>
     year a < year b \<or>
     (year a = year b \<and> (month a < month b \<or> (month a = month b \<and> day a < day b)))"

definition ascending_dates :: "date list \<Rightarrow> bool" where
  "ascending_dates ds = sorted_wrt date_less ds"

section \<open>Catalog listing: \<^verbatim>\<open>QuizListView.get_queryset\<close>\<close>

text \<open>
  A quiz with the two annotations \<^verbatim>\<open>Count('questions', distinct=True)\<close> and
  \<^verbatim>\<open>Count('taken_quizzes', distinct=True)\<close>.
\<close>

record quiz_row =
  row_quiz :: quiz
  questions_count :: nat
  taken_count :: nat

definition annotate :: "store \<Rightarrow> quiz \<Rightarrow> quiz_row" where
  "annotate s z =
     \<lparr>row_quiz = z,
      questions_count =
        length (remdups (map question_pk
          (filter (\<lambda>q. question_quiz q = quiz_pk z) (questions s)))),
      taken_count =
        length (remdups (map taken_pk
          (filter (\<lambda>t. taken_quiz_fk t = quiz_pk z) (taken_quizzes s))))\<rparr>"

subsection \<open>The string methods the view relies on\<close>

text \<open>
  A query parameter is a Python \<^verbatim>\<open>str\<close>, a sequence of code points. A \<open>char\<close> stands for a
  code point below 256 here, which is enough to tell the two notions of digit apart:
  \<^verbatim>\<open>str.isdigit()\<close> accepts the decimal digits and also the superscript digits U+00B2,
  U+00B3 and U+00B9, which are digits but not decimal characters, while \<^verbatim>\<open>int()\<close> reads
  decimal characters only and raises \<^verbatim>\<open>ValueError\<close> on anything else.
\<close>

definition is_decimal_char :: "char \<Rightarrow> bool" where
  "is_decimal_char c \<longleftrightarrow> 48 \<le> (of_char c :: nat) \<and> (of_char c :: nat) \<le> 57"

definition is_superscript_digit :: "char \<Rightarrow> bool" where
  "is_superscript_digit c \<longleftrightarrow> (of_char c :: nat) \<in> {178, 179, 185}"

definition isdigit :: "string \<Rightarrow> bool" where
  "isdigit str \<longleftrightarrow> str \<noteq> [] \<and> list_all (\<lambda>c. is_decimal_char c \<or> is_superscript_digit c) str"

text \<open>
  \<^verbatim>\<open>int(str)\<close>, which the lookup on the integer key of the subject applies to its value when
  the filter is built. It is only ever called on a string that passed \<^verbatim>\<open>isdigit()\<close>, so
  signs, blanks and underscores do not occur.
\<close>

definition py_int :: "string \<Rightarrow> error + nat" where
  "py_int str =
     (if str \<noteq> [] \<and> list_all is_decimal_char str
      then Inr (foldl (\<lambda>n c. 10 * n + (of_char c - 48)) 0 str)
      else Inl ValueError)"

text \<open>\<^verbatim>\<open>name__icontains\<close>: containment without regard to the case of the ASCII letters.\<close>

definition lower_char :: "char \<Rightarrow> char" where
  "lower_char c =
     (case map_of (zip ''ABCDEFGHIJKLMNOPQRSTUVWXYZ'' ''abcdefghijklmnopqrstuvwxyz'') c of
        None \<Rightarrow> c
      | Some l \<Rightarrow> l)"

fun contains :: "string \<Rightarrow> string \<Rightarrow> bool" where
  "contains needle [] \<longleftrightarrow> needle = []"
| "contains needle (c # rest) \<longleftrightarrow>
     take (length needle) (c # rest) = needle \<or> contains needle rest"

definition icontains :: "string \<Rightarrow> string \<Rightarrow> bool" where
  "icontains needle hay = contains (map lower_char needle) (map lower_char hay)"

subsection \<open>The view\<close>

text \<open>
  The three query parameters are \<open>None\<close> when the request does not carry them. The
  \<^verbatim>\<open>ordering\<close> attribute of the class is read by the inherited \<^verbatim>\<open>get_queryset\<close> only,
  which this one replaces.
\<close>

definition filter_subject :: "string \<Rightarrow> quiz_row list \<Rightarrow> error + quiz_row list" where
  "filter_subject type_query queryset =
     (case py_int type_query of
        Inl e \<Rightarrow> Inl e
      | Inr pk \<Rightarrow> Inr (filter (\<lambda>r. quiz_subject (row_quiz r) = pk) queryset))"

definition order_by :: "string \<Rightarrow> quiz_row list \<Rightarrow> quiz_row list" where
  "order_by key queryset =
     (if key = ''name'' then sort_key (\<lambda>r. quiz_name (row_quiz r)) queryset
      else rev (sort_key (\<lambda>r. quiz_name (row_quiz r)) queryset))"

definition get_queryset ::
  "store \<Rightarrow> nat \<Rightarrow> string option \<Rightarrow> string option \<Rightarrow> string option \<Rightarrow> error + quiz_row list" where
  "get_queryset s user find_query type_query ordering_query =
     (let queryset = map (annotate s) (user_quizzes s user);
          queryset = (case find_query of
                        None \<Rightarrow> queryset
                      | Some q \<Rightarrow> filter (\<lambda>r. icontains q (quiz_name (row_quiz r))) queryset)
      in case (case type_query of
                 None \<Rightarrow> Inr queryset
               | Some ty \<Rightarrow> if isdigit ty then filter_subject ty queryset else Inr queryset) of
           Inl e \<Rightarrow> Inl e
         | Inr queryset \<Rightarrow>
             Inr (case ordering_query of
                    None \<Rightarrow> queryset
                  | Some key \<Rightarrow>
                      if key = ''name'' \<or> key = ''-name'' then order_by key queryset
                      else queryset))"

section \<open>Example data\<close>

text \<open>
  Two teachers (7 and 8), two students (20 and 21), the quiz ``Algebra'' of teacher 7 with
  two questions, and three attempts at it on two days. Student 20 picked the answer ``4''
  in two attempts and the answer ``9'' once.
\<close>

definition algebra :: quiz where
  "algebra = \<lparr>quiz_pk = 1, quiz_name = ''Algebra'', quiz_owner = 7, quiz_subject = 1\<rparr>"

definition geometry :: quiz where
  "geometry = \<lparr>quiz_pk = 2, quiz_name = ''Geometry'', quiz_owner = 8, quiz_subject = 1\<rparr>"

definition demo_questions :: "question list" where
  "demo_questions =
     [\<lparr>question_pk = 1, question_text = ''2+2=?'', question_quiz = 1\<rparr>,
      \<lparr>question_pk = 2, question_text = ''3*3=?'', question_quiz = 1\<rparr>]"

definition demo_answers :: "answer list" where
  "demo_answers =
     [\<lparr>answer_pk = 1, answer_text = ''3'', answer_is_correct = False, answer_question = 1\<rparr>,
      \<lparr>answer_pk = 2, answer_text = ''4'', answer_is_correct = True, answer_question = 1\<rparr>,
      \<lparr>answer_pk = 3, answer_text = ''5'', answer_is_correct = False, answer_question = 1\<rparr>,
      \<lparr>answer_pk = 4, answer_text = ''6'', answer_is_correct = False, answer_question = 1\<rparr>,
      \<lparr>answer_pk = 5, answer_text = ''6'', answer_is_correct = False, answer_question = 2\<rparr>,
      \<lparr>answer_pk = 6, answer_text = ''9'', answer_is_correct = True, answer_question = 2\<rparr>]"

definition demo_taken :: "taken_quiz list" where
  "demo_taken =
     [\<lparr>taken_pk = 1, taken_student = 20, taken_quiz_fk = 1,
        taken_date = \<lparr>dt_date = \<lparr>year = 2024, month = 1, day = 3\<rparr>, dt_seconds = 36000\<rparr>\<rparr>,
      \<lparr>taken_pk = 2, taken_student = 20, taken_quiz_fk = 1,
        taken_date = \<lparr>dt_date = \<lparr>year = 2024, month = 1, day = 1\<rparr>, dt_seconds = 32400\<rparr>\<rparr>,
      \<lparr>taken_pk = 3, taken_student = 21, taken_quiz_fk = 1,
        taken_date = \<lparr>dt_date = \<lparr>year = 2024, month = 1, day = 1\<rparr>, dt_seconds = 61200\<rparr>\<rparr>]"

definition demo_store :: store where
  "demo_store =
     \<lparr>quizzes = [algebra, geometry],
      questions = demo_questions,
      answers = demo_answers,
      students = [20, 21],
      subjects = [1],
      taken_quizzes = demo_taken,
      student_answers =
        [\<lparr>sa_student = 20, sa_answer = 2\<rparr>, \<lparr>sa_student = 20, sa_answer = 2\<rparr>,
         \<lparr>sa_student = 20, sa_answer = 6\<rparr>]\<rparr>"

text \<open>
  A form module that wants a text in every field and one answer marked as correct, and
  three submissions for the answer formset: three new answers and an empty form; an edit
  of the four answers of the first question with one deletion and one addition; and a
  single answer.
\<close>

definition demo_forms :: forms_py where
  "demo_forms =
     \<lparr>question_text_ok = (\<lambda>t. t \<noteq> []), answer_text_ok = (\<lambda>t. t \<noteq> []),
      formset_clean = list_ex (\<lambda>f. \<not> af_delete f \<and> af_is_correct f)\<rparr>"

definition three_forms :: "answer_form list" where
  "three_forms =
     [\<lparr>af_initial = False, af_id = None, af_text = ''3'', af_is_correct = False, af_delete = False\<rparr>,
      \<lparr>af_initial = False, af_id = None, af_text = ''4'', af_is_correct = True, af_delete = False\<rparr>,
      \<lparr>af_initial = False, af_id = None, af_text = ''5'', af_is_correct = False, af_delete = False\<rparr>,
      \<lparr>af_initial = False, af_id = None, af_text = '''', af_is_correct = False, af_delete = False\<rparr>]"


definition one_form :: "answer_form list" where
  "one_form = [\<lparr>af_initial = False, af_id = None, af_text = ''4'', af_is_correct = True, af_delete = False\<rparr>]"

definition demo_store1 :: store where
  "demo_store1 = snd (question_add demo_forms demo_store 7 (POST ''5-1=?'') 1)"

definition demo_store2 :: store where
  "demo_store2 =
     snd (question_change demo_forms None demo_store1 7 (POST (''5-2=?'', three_forms)) 1 3)"

text \<open>
  A quiz of teacher 7 in which two questions carry the same text, with different answers;
  student 20 picked the first answer of the first question.
\<close>

definition twin_store :: store where
  "twin_store =
     \<lparr>quizzes = [algebra],
      questions =
        [\<lparr>question_pk = 1, question_text = ''1+1=?'', question_quiz = 1\<rparr>,
         \<lparr>question_pk = 2, question_text = ''1+1=?'', question_quiz = 1\<rparr>],
      answers =
        [\<lparr>answer_pk = 1, answer_text = ''2'', answer_is_correct = True, answer_question = 1\<rparr>,
         \<lparr>answer_pk = 2, answer_text = ''3'', answer_is_correct = False, answer_question = 1\<rparr>,
         \<lparr>answer_pk = 3, answer_text = ''two'', answer_is_correct = True, answer_question = 2\<rparr>,
         \<lparr>answer_pk = 4, answer_text = ''three'', answer_is_correct = False, answer_question = 2\<rparr>],
      students = [20],
      subjects = [1],
      taken_quizzes = [],
      student_answers = [\<lparr>sa_student = 20, sa_answer = 1\<rparr>]\<rparr>"

text \<open>What the review of student 20 shows for the two stores.\<close>

definition twin_context :: review_context where
  "twin_context =
     \<lparr>ctx_quiz = algebra,
      ctx_answers = [(''1+1=?'', question_answers twin_store 2)],
      ctx_students_answers = [hd (answers twin_store)],
      ctx_student = 20\<rparr>"

definition demo_context :: review_context where
  "demo_context =
     \<lparr>ctx_quiz = algebra,
      ctx_answers =
        [(''2+2=?'', question_answers demo_store 1), (''3*3=?'', question_answers demo_store 2)],
      ctx_students_answers = [demo_answers ! 1, demo_answers ! 5],
      ctx_student = 20\<rparr>"

text \<open>
  A working directory without subdirectories, where a path with a slash points into a
  directory that is not there and any other file can be written, and a quiz of teacher 7
  whose name has a slash.
\<close>

definition flat_directory :: "string \<Rightarrow> pdf_line list \<Rightarrow> error option" where
  "flat_directory path document = (if CHR ''/'' \<in> set path then Some OSError else None)"

definition slash_quiz :: quiz where
  "slash_quiz = \<lparr>quiz_pk = 1, quiz_name = ''a/b'', quiz_owner = 7, quiz_subject = 1\<rparr>"

definition slash_store :: store where
  "slash_store =
     \<lparr>quizzes = [slash_quiz], questions = [], answers = [], students = [], subjects = [1],
      taken_quizzes = [], student_answers = []\<rparr>"

text \<open>
  Three more submissions for the question that \<^verbatim>\<open>question_add\<close> creates in the example
  store (key 3): initial forms that carry the ids of answers of the first question; and,
  once the three answers 7, 8 and 9 are stored, the rendered forms of these with the
  first and the third marked for deletion, two new answers and an empty form. The stores
  are what the view returns for them, and for the three new answers submitted once more.
\<close>

definition foreign_forms :: "answer_form list" where
  "foreign_forms =
     [\<lparr>af_initial = True, af_id = Some 1, af_text = ''3'', af_is_correct = False, af_delete = False\<rparr>,
      \<lparr>af_initial = True, af_id = Some 2, af_text = ''4'', af_is_correct = True, af_delete = False\<rparr>,
      \<lparr>af_initial = True, af_id = Some 3, af_text = ''5'', af_is_correct = False, af_delete = False\<rparr>]"

definition replace_forms :: "answer_form list" where
  "replace_forms =
     [\<lparr>af_initial = True, af_id = Some 7, af_text = ''3'', af_is_correct = False, af_delete = True\<rparr>,
      \<lparr>af_initial = True, af_id = Some 8, af_text = ''4'', af_is_correct = True, af_delete = False\<rparr>,
      \<lparr>af_initial = True, af_id = Some 9, af_text = ''5'', af_is_correct = False, af_delete = True\<rparr>,
      \<lparr>af_initial = False, af_id = None, af_text = ''40'', af_is_correct = False, af_delete = False\<rparr>,
      \<lparr>af_initial = False, af_id = None, af_text = ''44'', af_is_correct = False, af_delete = False\<rparr>,
      \<lparr>af_initial = False, af_id = None, af_text = [], af_is_correct = False, af_delete = False\<rparr>]"

definition demo_store_foreign :: store where
  "demo_store_foreign =
     snd (question_change demo_forms None demo_store1 7 (POST (''5-2=?'', foreign_forms)) 1 3)"

definition demo_store_again :: store where
  "demo_store_again =
     snd (question_change demo_forms None demo_store2 7 (POST (''5-2=?'', three_forms)) 1 3)"

definition demo_store3 :: store where
  "demo_store3 =
     snd (question_change demo_forms None demo_store2 7 (POST (''5-2=?'', replace_forms)) 1 3)"


section \<open>Properties: ownership\<close>

lemma distinct_map_eq:
  assumes "distinct (map f xs)" "x \<in> set xs" "y \<in> set xs" "f x = f y"
  shows "x = y"
proof -
  from assms(1) have "inj_on f (set xs)" by (simp add: distinct_map)
  with assms(2-4) show ?thesis by (auto dest: inj_onD)
qed

lemma quiz_get_object_not_owner:
  assumes "distinct (map quiz_pk (quizzes s))" "Q \<in> set (quizzes s)" "quiz_owner Q \<noteq> T"
  shows "quiz_get_object s T (quiz_pk Q) = Inl Http404"
proof -
  have "filter (\<lambda>z. quiz_pk z = quiz_pk Q) (user_quizzes s T) = []"
  proof (rule ccontr)
    assume "filter (\<lambda>z. quiz_pk z = quiz_pk Q) (user_quizzes s T) \<noteq> []"
    then obtain z where z: "z \<in> set (quizzes s)" "quiz_owner z = T" "quiz_pk z = quiz_pk Q"
      by (auto simp: user_quizzes_def filter_empty_conv)
    from distinct_map_eq [OF assms(1) z(1) assms(2) z(3)] have "z = Q" .
    with z(2) assms(3) show False by simp
  qed
  then show ?thesis by (simp add: quiz_get_object_def get_object_or_404_def objects_get_def)
qed

text \<open>
  C1. A teacher \<open>T\<close> who is not the owner of the stored quiz \<open>Q\<close> gets the not-found
  error from both the update and the delete view, whatever the request, and the store
  (the quiz, its questions and its answers included) is the one before the call. No other
  error value stands for the missing ownership.
\<close>

theorem quiz_update_delete_not_owner:
  assumes "distinct (map quiz_pk (quizzes s))" and "Q \<in> set (quizzes s)"
    and "quiz_owner Q \<noteq> T"
  shows "QuizUpdateView name_ok s T req (quiz_pk Q) = (Raised Http404, s) \<and>
         QuizDeleteView s T req' (quiz_pk Q) = (Raised Http404, s)"
  using quiz_get_object_not_owner [OF assms]
  by (simp add: QuizUpdateView_def QuizDeleteView_def)

theorem quiz_update_delete_not_owner_witness:
  "distinct (map quiz_pk (quizzes demo_store)) \<and> algebra \<in> set (quizzes demo_store) \<and>
   quiz_owner algebra \<noteq> 8 \<and>
   QuizUpdateView (\<lambda>n. n \<noteq> []) demo_store 8 (POST (''Geometry'', 1)) 1 =
     (Raised Http404, demo_store) \<and>
   QuizDeleteView demo_store 8 (POST ()) 1 = (Raised Http404, demo_store)"
  using quiz_update_delete_not_owner
    [where s = demo_store and Q = algebra and T = 8 and name_ok = "\<lambda>n. n \<noteq> []"
       and req = "POST (''Geometry'', 1)" and req' = "POST ()"]
  by (simp add: demo_store_def algebra_def geometry_def)

section \<open>Properties: question and answer authoring\<close>

lemmas demo_defs = demo_store_def algebra_def geometry_def demo_questions_def demo_answers_def
  demo_taken_def demo_forms_def

lemmas view_defs = question_add_def question_change_def find_quiz_def find_question_def
  get_object_or_404_def objects_get_def next_pk_def question_answers_def formset_is_valid_def
  form_is_valid_def has_changed_def is_empty_form_def existing_object_def form_instance_def
  id_is_valid_def
  submitted_answers_def min_num_def max_num_def absolute_max_def atomic_def form_save_def formset_save_def
  save_existing_def save_new_def



lemma objects_get_Inr: "objects_get rows = Inr x \<Longrightarrow> rows = [x]"
  by (auto simp: objects_get_def split: list.splits)

lemma get_object_or_404_Inr: "get_object_or_404 rows = Inr x \<Longrightarrow> rows = [x]"
  by (auto simp: get_object_or_404_def dest: objects_get_Inr split: sum.splits error.splits)

lemma find_question_pk: "find_question s z pk = Inr q \<Longrightarrow> question_pk q = pk \<and> question_quiz q = quiz_pk z \<and> q \<in> set (questions s)"
proof -
  assume "find_question s z pk = Inr q"
  then have "filter (\<lambda>q. question_pk q = pk \<and> question_quiz q = quiz_pk z) (questions s) = [q]"
    unfolding find_question_def by (rule get_object_or_404_Inr)
  then have "q \<in> set (filter (\<lambda>q. question_pk q = pk \<and> question_quiz q = quiz_pk z) (questions s))"
    by simp
  then show ?thesis by simp
qed

lemma find_quiz_pk: "find_quiz s user pk = Inr z \<Longrightarrow> quiz_pk z = pk \<and> quiz_owner z = user \<and> z \<in> set (quizzes s)"
proof -
  assume "find_quiz s user pk = Inr z"
  then have "filter (\<lambda>z. quiz_pk z = pk \<and> quiz_owner z = user) (quizzes s) = [z]"
    unfolding find_quiz_def by (rule get_object_or_404_Inr)
  then have "z \<in> set (filter (\<lambda>z. quiz_pk z = pk \<and> quiz_owner z = user) (quizzes s))"
    by simp
  then show ?thesis by simp
qed

lemma run_writes_result:
  "run_writes fault ws s = (None, fold apply_write ws s) \<or>
   (\<exists>s'. run_writes fault ws s = (Some DatabaseError, s'))"
  by (induction ws arbitrary: fault s) auto

lemma run_writes_None: "run_writes None ws s = (None, fold apply_write ws s)"
  by (induction ws arbitrary: s) auto

lemma atomic_run_writes:
  "atomic (run_writes fault ws) s = (None, fold apply_write ws s) \<or>
   atomic (run_writes fault ws) s = (Some DatabaseError, s)"
  using run_writes_result [of fault ws s] by (auto simp: atomic_def)

lemma filter_count_lower:
  "length xs \<le> length (filter (\<lambda>x. \<not> P x \<and> \<not> Q x) xs) + length (filter P xs) + length (filter Q xs)"
  by (induction xs) auto

lemma filter_count_upper:
  "length (filter (\<lambda>x. \<not> P x \<and> \<not> Q x) xs) + length (filter P xs) \<le> length xs"
  by (induction xs) auto

lemma formset_is_valid_size:
  assumes "formset_is_valid F all_answers qs forms"
  shows "2 \<le> length (submitted_answers qs forms) \<and> length (submitted_answers qs forms) \<le> 10"
proof -
  let ?n = "length (submitted_answers qs forms)"
  let ?d = "length (filter af_delete forms)"
  let ?e = "length (filter (is_empty_form qs) forms)"
  from assms have mx: "int (length forms) - int ?d \<le> 10"
    and mn: "2 \<le> int (length forms) - int ?d - int ?e"
    by (simp_all add: formset_is_valid_def Let_def max_num_def min_num_def)
  have lo: "length forms \<le> ?n + ?d + ?e"
    unfolding submitted_answers_def by (rule filter_count_lower)
  have hi: "?n + ?d \<le> length forms"
    unfolding submitted_answers_def by (rule filter_count_upper)
  from mx mn lo hi show ?thesis by linarith
qed


lemma apply_answer_write_questions:
  "is_answer_write w \<Longrightarrow> apply_write w (s\<lparr>questions := Q\<rparr>) = (apply_write w s)\<lparr>questions := Q\<rparr>"
  by (cases w) simp_all

lemma fold_answer_writes_questions:
  "list_all is_answer_write ws \<Longrightarrow>
   fold apply_write ws (s\<lparr>questions := Q\<rparr>) = (fold apply_write ws s)\<lparr>questions := Q\<rparr>"
  by (induction ws arbitrary: s) (simp_all add: apply_answer_write_questions)

lemma apply_answer_write_keeps_questions:
  "is_answer_write w \<Longrightarrow> questions (apply_write w s) = questions s"
  by (cases w) simp_all

lemma fold_answer_writes_keep_questions:
  "list_all is_answer_write ws \<Longrightarrow> questions (fold apply_write ws s) = questions s"
  by (induction ws arbitrary: s) (simp_all add: apply_answer_write_keeps_questions)

lemma formset_save_answer_writes: "list_all is_answer_write (formset_save qs qpk forms)"
  by (auto simp: formset_save_def save_existing_def save_new_def list_all_iff
      split: option.splits)

lemma saved_both:
  "fold apply_write (form_save q tx @ formset_save qs qpk forms) s =
   (fold apply_write (formset_save qs qpk forms) s)
     \<lparr>questions := map (\<lambda>q'. if question_pk q' = question_pk q then q'\<lparr>question_text := tx\<rparr> else q')
        (questions s)\<rparr>"
proof -
  have "fold apply_write (form_save q tx @ formset_save qs qpk forms) s =
        fold apply_write (formset_save qs qpk forms)
          (s\<lparr>questions := map (\<lambda>q'. if question_pk q' = question_pk q then q'\<lparr>question_text := tx\<rparr> else q')
        (questions s)\<rparr>)"
    by (simp add: form_save_def)
  then show ?thesis
    by (simp add: fold_answer_writes_questions [OF formset_save_answer_writes])
qed

lemma fold_max_ge: "x \<in> set xs \<Longrightarrow> x \<le> fold max xs (a::nat)"
proof -
  assume "x \<in> set xs"
  then have "x \<le> Max (set (a # xs))" by (intro Max_ge) simp_all
  then show ?thesis by (simp only: Max.set_eq_fold)
qed

lemma next_pk_fresh: "next_pk pks \<notin> set pks"
  using fold_max_ge [of "next_pk pks" pks 0] by (auto simp: next_pk_def)

lemma question_change_Redirect:
  assumes "question_change F fault s user req zpk qpk = (Redirect t, s')"
  shows "\<exists>z q tx forms. req = POST (tx, forms) \<and> find_quiz s user zpk = Inr z \<and>
           find_question s z qpk = Inr q \<and> question_text_ok F tx \<and>
           formset_is_valid F (answers s) (question_answers s qpk) forms \<and> t = To_quiz_change (quiz_pk z) \<and>
           s' = fold apply_write (form_save q tx @ formset_save (question_answers s qpk) qpk forms) s"
proof (cases "find_quiz s user zpk")
  case (Inl e)
  with assms show ?thesis by (simp add: question_change_def)
next
  case z: (Inr z)
  show ?thesis
  proof (cases "find_question s z qpk")
    case (Inl e)
    with z assms show ?thesis by (simp add: question_change_def)
  next
    case q: (Inr q)
    then have pk: "question_pk q = qpk" by (simp add: find_question_pk)
    show ?thesis
    proof (cases req)
      case GET
      with z q assms show ?thesis by (simp add: question_change_def)
    next
      case (POST data)
      obtain tx forms where d: "data = (tx, forms)" by (cases data)
      let ?ws = "form_save q tx @ formset_save (question_answers s qpk) qpk forms"
      have ok: "question_text_ok F tx \<and> formset_is_valid F (answers s) (question_answers s qpk) forms"
        using assms z q pk POST d
        by (auto simp add: question_change_def Let_def split: if_splits)
      from atomic_run_writes [of fault ?ws s] show ?thesis
      proof
        assume "atomic (run_writes fault ?ws) s = (None, fold apply_write ?ws s)"
        with z q pk POST d ok assms show ?thesis
          by (simp add: question_change_def Let_def)
      next
        assume "atomic (run_writes fault ?ws) s = (Some DatabaseError, s)"
        with z q pk POST d ok assms show ?thesis
          by (simp add: question_change_def Let_def)
      qed
    qed
  qed
qed

lemma question_add_Redirect:
  assumes "question_add F s user req zpk = (Redirect t, s1)"
  shows "\<exists>tx. req = POST tx \<and>
           t = To_question_change zpk (next_pk (map question_pk (questions s))) \<and>
           s1 = s\<lparr>questions := questions s @
                  [\<lparr>question_pk = next_pk (map question_pk (questions s)),
                    question_text = tx, question_quiz = zpk\<rparr>]\<rparr>"
proof (cases "find_quiz s user zpk")
  case (Inl e)
  with assms show ?thesis by (simp add: question_add_def)
next
  case (Inr z)
  then have "quiz_pk z = zpk" by (simp add: find_quiz_pk)
  with Inr assms show ?thesis
    by (cases req) (auto simp: question_add_def Let_def split: if_splits)
qed



text \<open>
  C3. When the submitted answer set (the forms neither marked for deletion nor empty) has
  fewer than 2 or more than 10 members, \<^verbatim>\<open>question_change\<close> returns the store unchanged,
  and whenever the quiz and the question are found the response is the form page with its
  validation errors.
\<close>

theorem question_change_size_outside:
  assumes "length (submitted_answers (question_answers s qpk) forms) < 2 \<or>
           10 < length (submitted_answers (question_answers s qpk) forms)"
  shows "snd (question_change F fault s user (POST (text, forms)) zpk qpk) = s \<and>
         (\<forall>z q. find_quiz s user zpk = Inr z \<longrightarrow> find_question s z qpk = Inr q \<longrightarrow>
            question_change F fault s user (POST (text, forms)) zpk qpk = (Page_with_errors, s))"
proof -
  have inv: "\<not> formset_is_valid F (answers s) (question_answers s qpk) forms"
    using assms formset_is_valid_size [of F "answers s" "question_answers s qpk" forms] by linarith
  have found: "question_change F fault s user (POST (text, forms)) zpk qpk = (Page_with_errors, s)"
    if "find_quiz s user zpk = Inr z" "find_question s z qpk = Inr q" for z q
    using that inv find_question_pk [OF that(2)]
    by (simp add: question_change_def Let_def)
  have "snd (question_change F fault s user (POST (text, forms)) zpk qpk) = s"
  proof (cases "find_quiz s user zpk")
    case (Inl e)
    then show ?thesis by (simp add: question_change_def)
  next
    case (Inr z)
    show ?thesis
    proof (cases "find_question s z qpk")
      case (Inl e)
      with Inr show ?thesis by (simp add: question_change_def)
    next
      case (Inr q)
      with found \<open>find_quiz s user zpk = Inr z\<close> show ?thesis by simp
    qed
  qed
  with found show ?thesis by blast
qed


theorem question_change_size_outside_witness:
  "(length (submitted_answers (question_answers demo_store 1) one_form) < 2 \<or>
    10 < length (submitted_answers (question_answers demo_store 1) one_form)) \<and>
   find_quiz demo_store 7 1 = Inr algebra \<and>
   find_question demo_store algebra 1 = Inr (hd demo_questions) \<and>
   question_change demo_forms None demo_store 7 (POST (''2+3=?'', one_form)) 1 1 =
     (Page_with_errors, demo_store)"
proof -
  have small: "length (submitted_answers (question_answers demo_store 1) one_form) < 2 \<or>
      10 < length (submitted_answers (question_answers demo_store 1) one_form)"
    by (simp add: demo_defs view_defs one_form_def)
  have z: "find_quiz demo_store 7 1 = Inr algebra"
    by (simp add: demo_defs view_defs)
  have q: "find_question demo_store algebra 1 = Inr (hd demo_questions)"
    by (simp add: demo_defs view_defs)
  from question_change_size_outside [OF small, of demo_forms None 7 "''2+3=?''" 1] z q
  have "question_change demo_forms None demo_store 7 (POST (''2+3=?'', one_form)) 1 1 =
     (Page_with_errors, demo_store)"
    by blast
  with small z q show ?thesis by simp
qed

subsection \<open>What a successful change leaves of the answers\<close>

lemma map_filter_of_filter:
  "List.map_filter g (filter P xs) = List.map_filter (\<lambda>x. if P x then g x else None) xs"
  by (induction xs) (simp_all add: map_filter_simps split: option.splits)

lemma map_filter_of_map:
  "List.map_filter g (map h xs) = List.map_filter (\<lambda>x. g (h x)) xs"
  by (induction xs) (simp_all add: map_filter_simps split: option.splits)

lemma row_effect_Delete:
  "row_effect (Delete_answer pk # ws) =
     (\<lambda>a. if answer_pk a \<noteq> pk then row_effect ws a else None)"
  by (rule ext) simp

lemma row_effect_Update:
  "row_effect (Update_answer pk tx c # ws) =
     (\<lambda>a. row_effect ws
        (if answer_pk a = pk then a\<lparr>answer_text := tx, answer_is_correct := c\<rparr> else a))"
  by (rule ext) simp

lemma row_writes_answers:
  "list_all is_row_write ws \<Longrightarrow>
   answers (fold apply_write ws s) = List.map_filter (row_effect ws) (answers s)"
proof (induction ws arbitrary: s)
  case Nil
  show ?case by (simp add: map_filter_def)
next
  case (Cons w ws)
  then have IH: "\<And>s. answers (fold apply_write ws s) = List.map_filter (row_effect ws) (answers s)"
    by simp
  from Cons.prems have "is_row_write w" by simp
  then show ?case
  proof (cases w)
    case (Delete_answer pk)
    show ?thesis
      unfolding Delete_answer row_effect_Delete
      by (simp add: IH map_filter_of_filter)
  next
    case (Update_answer pk tx c)
    show ?thesis
      unfolding Update_answer row_effect_Update
      by (simp add: IH map_filter_of_map)
  qed simp_all
qed

lemma row_step_keeps:
  "row_step w a = Some a' \<Longrightarrow> answer_question a' = answer_question a \<and> answer_pk a' = answer_pk a"
  by (cases w) (auto split: if_splits)

lemma row_effect_keeps:
  "row_effect ws a = Some a' \<Longrightarrow> answer_question a' = answer_question a \<and> answer_pk a' = answer_pk a"
proof (induction ws arbitrary: a)
  case Nil
  then show ?case by simp
next
  case (Cons w ws)
  then obtain b where b: "row_step w a = Some b" "row_effect ws b = Some a'"
    by (auto split: option.splits)
  from Cons.IH [OF b(2)] row_step_keeps [OF b(1)] show ?case by simp
qed

lemma filter_row_effect:
  "filter (\<lambda>a. answer_question a = k) (List.map_filter (row_effect ws) xs) =
   List.map_filter (row_effect ws) (filter (\<lambda>a. answer_question a = k) xs)"
proof (induction xs)
  case Nil
  show ?case by (simp add: map_filter_simps)
next
  case (Cons x xs)
  show ?case
  proof (cases "row_effect ws x")
    case None
    with Cons show ?thesis by (simp add: map_filter_simps)
  next
    case (Some x')
    with row_effect_keeps [OF Some] Cons show ?thesis by (simp add: map_filter_simps)
  qed
qed

lemma row_effect_untouched:
  "\<forall>w\<in>set ws. \<not> touches w (answer_pk a) \<Longrightarrow> row_effect ws a = Some a"
proof (induction ws)
  case Nil
  show ?case by simp
next
  case (Cons w ws)
  then have "\<not> touches w (answer_pk a)" by simp
  then have "row_step w a = Some a" by (cases w) auto
  with Cons show ?case by simp
qed

lemma row_effect_append:
  "row_effect (ws1 @ ws2) a =
     (case row_effect ws1 a of None \<Rightarrow> None | Some a' \<Rightarrow> row_effect ws2 a')"
  by (induction ws1 arbitrary: a) (auto split: option.splits)

lemma existing_object_Some:
  "existing_object qs pk = Some a \<Longrightarrow> answer_pk a = pk \<and> a \<in> set qs"
  unfolding existing_object_def by (auto simp: find_Some_iff)

lemma existing_object_unique:
  assumes "distinct (map answer_pk qs)" "a \<in> set qs"
  shows "existing_object qs (answer_pk a) = Some a"
proof (cases "existing_object qs (answer_pk a)")
  case None
  with assms(2) show ?thesis by (auto simp: existing_object_def find_None_iff)
next
  case (Some b)
  from existing_object_Some [OF Some] have "answer_pk b = answer_pk a" "b \<in> set qs" by simp_all
  with assms have "b = a" by (auto dest: distinct_map_eq)
  with Some show ?thesis by simp
qed

lemma save_existing_row_writes: "list_all is_row_write (save_existing qs f)"
  by (simp add: save_existing_def split: option.splits)

lemma save_existing_touches:
  assumes "w \<in> set (save_existing qs f)" "touches w k"
  shows "af_id f = Some k"
proof (cases "form_instance qs f")
  case None
  with assms(1) show ?thesis by (simp add: save_existing_def)
next
  case (Some a)
  then obtain pk where pk: "af_id f = Some pk" "existing_object qs pk = Some a"
    by (auto simp: form_instance_def split: if_splits option.splits)
  from existing_object_Some [OF pk(2)] have "answer_pk a = pk" by simp
  with assms Some pk(1) show ?thesis
    by (auto simp: save_existing_def split: if_splits)
qed

lemma save_existing_one:
  assumes dq: "distinct (map answer_pk qs)" and df: "distinct (map af_id fs)"
    and a: "a \<in> set qs" and f: "f \<in> set fs" and ini: "af_initial f"
    and id: "af_id f = Some (answer_pk a)"
  shows "row_effect (concat (map (save_existing qs) fs)) a =
           (if af_delete f then None
            else Some (a\<lparr>answer_text := af_text f, answer_is_correct := af_is_correct f\<rparr>))"
proof -
  from f obtain pre post where fs: "fs = pre @ f # post" by (auto dest: split_list)
  from df have "af_id f \<notin> af_id ` set pre" "af_id f \<notin> af_id ` set post"
    unfolding fs by auto
  then have other: "\<forall>g\<in>set pre \<union> set post. af_id g \<noteq> af_id f"
    by (metis Un_iff imageI)
  have untouched: "row_effect (concat (map (save_existing qs) gs)) b = Some b"
    if "set gs \<subseteq> set pre \<union> set post" "answer_pk b = answer_pk a" for gs b
  proof (rule row_effect_untouched, rule ballI, rule notI)
    fix w assume "w \<in> set (concat (map (save_existing qs) gs))" and t: "touches w (answer_pk b)"
    then obtain g where g: "g \<in> set gs" "w \<in> set (save_existing qs g)" by auto
    from save_existing_touches [OF g(2) t] that(2) id have "af_id g = af_id f" by simp
    with other g(1) that(1) show False by auto
  qed
  have inst: "form_instance qs f = Some a"
    using ini id existing_object_unique [OF dq a] by (simp add: form_instance_def)
  let ?a' = "a\<lparr>answer_text := af_text f, answer_is_correct := af_is_correct f\<rparr>"
  have mid: "row_effect (save_existing qs f) a = (if af_delete f then None else Some ?a')"
    using inst by (auto simp: save_existing_def has_changed_def)
  have pre: "row_effect (concat (map (save_existing qs) pre)) a = Some a"
    by (rule untouched) simp_all
  have post: "row_effect (concat (map (save_existing qs) post)) ?a' = Some ?a'"
    by (rule untouched) simp_all
  show ?thesis
    unfolding fs by (simp add: row_effect_append pre mid post)
qed

lemma kept_answers:
  "list_all2 (\<lambda>a f. g a =
       (if af_delete f then None
        else Some (a\<lparr>answer_text := af_text f, answer_is_correct := af_is_correct f\<rparr>))) qs fs \<Longrightarrow>
   map (\<lambda>a. (answer_text a, answer_is_correct a)) (List.map_filter g qs) =
   map (\<lambda>f. (af_text f, af_is_correct f)) (filter (\<lambda>f. \<not> af_delete f) fs)"
  by (induction rule: list_all2_induct) (auto simp: map_filter_simps)

lemma save_existing_rendered:
  assumes dq: "distinct (map answer_pk qs)"
    and rendered: "map af_id fs = map (\<lambda>a. Some (answer_pk a)) qs"
    and ini: "\<forall>f\<in>set fs. af_initial f"
  shows "map (\<lambda>a. (answer_text a, answer_is_correct a))
           (List.map_filter (row_effect (concat (map (save_existing qs) fs))) qs) =
         map (\<lambda>f. (af_text f, af_is_correct f)) (filter (\<lambda>f. \<not> af_delete f) fs)"
proof -
  from rendered have len: "length qs = length fs"
    by (metis length_map)
  have ids: "af_id (fs ! i) = Some (answer_pk (qs ! i))" if "i < length qs" for i
  proof -
    from that len have "map af_id fs ! i = af_id (fs ! i)" by simp
    moreover from that have "map (\<lambda>a. Some (answer_pk a)) qs ! i = Some (answer_pk (qs ! i))"
      by simp
    ultimately show ?thesis using rendered by simp
  qed
  have "distinct (map Some (map answer_pk qs))"
    using dq by (subst distinct_map) (simp add: inj_on_def)
  moreover have "map af_id fs = map Some (map answer_pk qs)" using rendered by simp
  ultimately have df: "distinct (map af_id fs)" by simp
  have "list_all2 (\<lambda>a f. af_id f = Some (answer_pk a)) qs fs"
    using len ids by (simp add: list_all2_conv_all_nth)
  then have "list_all2 (\<lambda>a f. row_effect (concat (map (save_existing qs) fs)) a =
       (if af_delete f then None
        else Some (a\<lparr>answer_text := af_text f, answer_is_correct := af_is_correct f\<rparr>))) qs fs"
  proof (rule list.rel_mono_strong)
    fix a f assume "a \<in> set qs" "f \<in> set fs" "af_id f = Some (answer_pk a)"
    with dq df ini show "row_effect (concat (map (save_existing qs) fs)) a =
       (if af_delete f then None
        else Some (a\<lparr>answer_text := af_text f, answer_is_correct := af_is_correct f\<rparr>))"
      by (intro save_existing_one) auto
  qed
  then show ?thesis by (rule kept_answers)
qed

lemma save_new_fold:
  "map (\<lambda>a. (answer_text a, answer_is_correct a, answer_question a))
     (answers (fold apply_write (concat (map (save_new qs qpk) fs)) s)) =
   map (\<lambda>a. (answer_text a, answer_is_correct a, answer_question a)) (answers s) @
   map (\<lambda>f. (af_text f, af_is_correct f, qpk)) (filter (\<lambda>f. has_changed qs f \<and> \<not> af_delete f) fs)"
  by (induction fs arbitrary: s) (auto simp: save_new_def)

lemma project_filter:
  "map (\<lambda>a. (answer_text a, answer_is_correct a)) (filter (\<lambda>a. answer_question a = k) xs) =
   map (\<lambda>(t, c, q). (t, c))
     (filter (\<lambda>(t, c, q). q = k)
        (map (\<lambda>a. (answer_text a, answer_is_correct a, answer_question a)) xs))"
  by (induction xs) auto

lemma project_filter_all:
  "map (\<lambda>(t, c, q). (t, c)) (filter (\<lambda>(t, c, q). q = k) (map (\<lambda>f. (af_text f, af_is_correct f, k)) fs)) =
   map (\<lambda>f. (af_text f, af_is_correct f)) fs"
  by (induction fs) auto

lemma submitted_initial:
  "filter af_initial (submitted_answers qs forms) =
   filter (\<lambda>f. \<not> af_delete f) (filter af_initial forms)"
  unfolding submitted_answers_def is_empty_form_def by (induction forms) auto

lemma submitted_extra:
  "filter (\<lambda>f. \<not> af_initial f) (submitted_answers qs forms) =
   filter (\<lambda>f. has_changed qs f \<and> \<not> af_delete f) (filter (\<lambda>f. \<not> af_initial f) forms)"
  unfolding submitted_answers_def is_empty_form_def by (induction forms) auto

lemma formset_save_answers:
  assumes unique: "distinct (map answer_pk (answers s))"
    and rendered: "map af_id (filter af_initial forms) =
                   map (\<lambda>a. Some (answer_pk a)) (question_answers s qpk)"
  shows "map (\<lambda>a. (answer_text a, answer_is_correct a))
           (filter (\<lambda>a. answer_question a = qpk)
              (answers (fold apply_write (formset_save (question_answers s qpk) qpk forms) s))) =
         map (\<lambda>f. (af_text f, af_is_correct f))
           (filter af_initial (submitted_answers (question_answers s qpk) forms)) @
         map (\<lambda>f. (af_text f, af_is_correct f))
           (filter (\<lambda>f. \<not> af_initial f) (submitted_answers (question_answers s qpk) forms))"
proof -
  let ?qs = "question_answers s qpk"
  let ?E = "concat (map (save_existing ?qs) (filter af_initial forms))"
  let ?N = "concat (map (save_new ?qs qpk) (filter (\<lambda>f. \<not> af_initial f) forms))"
  let ?sE = "fold apply_write ?E s"
  from unique have dq: "distinct (map answer_pk ?qs)"
    unfolding question_answers_def by (rule distinct_map_filter)
  have rowE: "list_all is_row_write ?E"
    using save_existing_row_writes by (auto simp: list_all_iff)
  have aE: "answers ?sE = List.map_filter (row_effect ?E) (answers s)"
    using rowE by (rule row_writes_answers)
  have kept: "map (\<lambda>a. (answer_text a, answer_is_correct a))
        (filter (\<lambda>a. answer_question a = qpk) (answers ?sE)) =
      map (\<lambda>f. (af_text f, af_is_correct f)) (filter (\<lambda>f. \<not> af_delete f) (filter af_initial forms))"
    unfolding aE filter_row_effect
    using save_existing_rendered [OF dq rendered] by (simp add: question_answers_def)
  have "fold apply_write (formset_save ?qs qpk forms) s = fold apply_write ?N ?sE"
    by (simp add: formset_save_def)
  then have "map (\<lambda>a. (answer_text a, answer_is_correct a))
        (filter (\<lambda>a. answer_question a = qpk)
           (answers (fold apply_write (formset_save ?qs qpk forms) s))) =
      map (\<lambda>a. (answer_text a, answer_is_correct a))
        (filter (\<lambda>a. answer_question a = qpk) (answers ?sE)) @
      map (\<lambda>f. (af_text f, af_is_correct f))
        (filter (\<lambda>f. has_changed ?qs f \<and> \<not> af_delete f) (filter (\<lambda>f. \<not> af_initial f) forms))"
    by (simp only: project_filter save_new_fold map_append filter_append project_filter_all)
  then show ?thesis
    by (simp only: kept submitted_initial submitted_extra)
qed

lemma demo_store1_eq:
  "demo_store1 = demo_store\<lparr>questions := demo_questions @
      [\<lparr>question_pk = 3, question_text = ''5-1=?'', question_quiz = 1\<rparr>]\<rparr>"
  by (simp add: demo_store1_def demo_defs view_defs Let_def)

lemma demo_store2_eq:
  "demo_store2 = demo_store\<lparr>
     questions := demo_questions @
       [\<lparr>question_pk = 3, question_text = ''5-2=?'', question_quiz = 1\<rparr>],
     answers := demo_answers @
       [\<lparr>answer_pk = 7, answer_text = ''3'', answer_is_correct = False, answer_question = 3\<rparr>,
        \<lparr>answer_pk = 8, answer_text = ''4'', answer_is_correct = True, answer_question = 3\<rparr>,
        \<lparr>answer_pk = 9, answer_text = ''5'', answer_is_correct = False, answer_question = 3\<rparr>]\<rparr>"
  by (simp add: demo_store2_def demo_store1_eq demo_defs view_defs three_forms_def Let_def)

lemma add_eval:
  "question_add demo_forms demo_store 7 (POST ''5-1=?'') 1 =
     (Redirect (To_question_change 1 3), demo_store1)"
  by (simp add: demo_store1_def demo_defs view_defs Let_def)

lemma change_eval:
  "question_change demo_forms None demo_store1 7 (POST (''5-2=?'', three_forms)) 1 3 =
     (Redirect (To_quiz_change 1), demo_store2)"
  by (simp add: demo_store2_def demo_store1_eq demo_defs view_defs three_forms_def Let_def)

lemma foreign_eval:
  "question_change demo_forms None demo_store1 7 (POST (''5-2=?'', foreign_forms)) 1 3 =
     (Redirect (To_quiz_change 1), demo_store_foreign)"
  by (simp add: demo_store_foreign_def demo_store1_eq demo_defs view_defs foreign_forms_def Let_def)

lemma foreign_size:
  "length (submitted_answers (question_answers demo_store1 3) foreign_forms) = 3"
  by (simp add: demo_store1_eq demo_defs view_defs foreign_forms_def)

lemma foreign_stored: "length (question_answers demo_store_foreign 3) = 0"
  by (simp add: demo_store_foreign_def demo_store1_eq demo_defs view_defs foreign_forms_def Let_def)

lemma again_eval:
  "question_change demo_forms None demo_store2 7 (POST (''5-2=?'', three_forms)) 1 3 =
     (Redirect (To_quiz_change 1), demo_store_again)"
  by (simp add: demo_store_again_def demo_store2_eq demo_defs view_defs three_forms_def Let_def)

lemma again_size:
  "length (submitted_answers (question_answers demo_store2 3) three_forms) = 3"
  by (simp add: demo_store2_eq demo_defs view_defs three_forms_def)

lemma again_stored: "length (question_answers demo_store_again 3) = 6"
  by (simp add: demo_store_again_def demo_store2_eq demo_defs view_defs three_forms_def Let_def)

lemma replace_eval:
  "question_change demo_forms None demo_store2 7 (POST (''5-2=?'', replace_forms)) 1 3 =
     (Redirect (To_quiz_change 1), demo_store3)"
  by (simp add: demo_store3_def demo_store2_eq demo_defs view_defs replace_forms_def Let_def)

lemma replace_size:
  "length (submitted_answers (question_answers demo_store2 3) replace_forms) = 3"
  by (simp add: demo_store2_eq demo_defs view_defs replace_forms_def)

lemma replace_texts:
  "map af_text (submitted_answers (question_answers demo_store2 3) replace_forms) = [''4'', ''40'', ''44'']"
  by (simp add: demo_store2_eq demo_defs view_defs replace_forms_def)

lemma question_add_no_answers:
  assumes fk: "\<forall>a\<in>set (answers s). answer_question a \<in> set (map question_pk (questions s))"
    and add: "question_add F s user req zpk = (Redirect (To_question_change zpk' qpk), s1)"
  shows "question_answers s1 qpk = []"
proof -
  from question_add_Redirect [OF add] obtain tx0 where
    qpk: "qpk = next_pk (map question_pk (questions s))" and
    s1: "s1 = s\<lparr>questions := questions s @
                  [\<lparr>question_pk = next_pk (map question_pk (questions s)),
                    question_text = tx0, question_quiz = zpk\<rparr>]\<rparr>"
    by auto
  have "qpk \<notin> set (map question_pk (questions s))"
    unfolding qpk by (rule next_pk_fresh)
  with fk show ?thesis by (auto simp: question_answers_def s1 filter_empty_conv)
qed

text \<open>
  C8 as it is stated fails, in two ways. Right after \<^verbatim>\<open>question_add\<close>, a submission of
  three initial forms whose ids are answers of another question is accepted, and nothing
  is stored for the new question. And a second submission of three new answers, which
  names none of the three answers stored by the first, leaves six answers: the prior set
  stays.
\<close>

theorem add_then_change_leftover_counterexample:
  "question_add demo_forms demo_store 7 (POST ''5-1=?'') 1 =
     (Redirect (To_question_change 1 3), demo_store1) \<and>
   question_change demo_forms None demo_store1 7 (POST (''5-2=?'', foreign_forms)) 1 3 =
     (Redirect (To_quiz_change 1), demo_store_foreign) \<and>
   length (submitted_answers (question_answers demo_store1 3) foreign_forms) = 3 \<and>
   length (question_answers demo_store_foreign 3) = 0 \<and>
   question_change demo_forms None demo_store1 7 (POST (''5-2=?'', three_forms)) 1 3 =
     (Redirect (To_quiz_change 1), demo_store2) \<and>
   question_change demo_forms None demo_store2 7 (POST (''5-2=?'', three_forms)) 1 3 =
     (Redirect (To_quiz_change 1), demo_store_again) \<and>
   length (submitted_answers (question_answers demo_store2 3) three_forms) = 3 \<and>
   length (question_answers demo_store_again 3) = 6"
  using add_eval foreign_eval foreign_size foreign_stored change_eval again_eval again_size
    again_stored
  by (intro conjI)

text \<open>
  C8, as the code has it. In a store with unique answer keys, take a successful
  \<^verbatim>\<open>question_change\<close> whose initial forms are the ones the page renders: one for each
  stored answer of the question, in their order (none at all for a question that
  \<^verbatim>\<open>question_add\<close> has just created). Afterwards the answers of the question are exactly
  the submitted ones, those of the initial forms not marked for deletion followed by the
  new ones, with the submitted texts and marks. So there are as many answers as the
  submitted set has members, three for a set of three, and no answer whose form was
  marked for deletion is left.
\<close>

theorem question_change_rendered_answer_set:
  assumes "distinct (map answer_pk (answers s))"
    and "question_change F fault s user (POST (tx, forms)) zpk qpk = (Redirect t, s')"
    and "map af_id (filter af_initial forms) =
         map (\<lambda>a. Some (answer_pk a)) (question_answers s qpk)"
  shows "map (\<lambda>a. (answer_text a, answer_is_correct a)) (question_answers s' qpk) =
           map (\<lambda>f. (af_text f, af_is_correct f))
             (filter af_initial (submitted_answers (question_answers s qpk) forms)) @
           map (\<lambda>f. (af_text f, af_is_correct f))
             (filter (\<lambda>f. \<not> af_initial f) (submitted_answers (question_answers s qpk) forms)) \<and>
         length (question_answers s' qpk) =
           length (submitted_answers (question_answers s qpk) forms)"
proof -
  let ?qs = "question_answers s qpk"
  let ?sub = "submitted_answers ?qs forms"
  from question_change_Redirect [OF assms(2)] obtain q where
    s': "s' = fold apply_write (form_save q tx @ formset_save ?qs qpk forms) s"
    by auto
  have "answers s' = answers (fold apply_write (formset_save ?qs qpk forms) s)"
    unfolding s' by (simp only: saved_both) simp
  then have eq: "map (\<lambda>a. (answer_text a, answer_is_correct a)) (question_answers s' qpk) =
      map (\<lambda>f. (af_text f, af_is_correct f)) (filter af_initial ?sub) @
      map (\<lambda>f. (af_text f, af_is_correct f)) (filter (\<lambda>f. \<not> af_initial f) ?sub)"
    using formset_save_answers [OF assms(1) assms(3)] by (simp add: question_answers_def)
  from arg_cong [OF eq, of length]
  have "length (question_answers s' qpk) =
      length (filter af_initial ?sub) + length (filter (\<lambda>f. \<not> af_initial f) ?sub)"
    by simp
  then have "length (question_answers s' qpk) = length ?sub"
    by (simp only: sum_length_filter_compl)
  with eq show ?thesis by simp
qed

theorem question_change_rendered_answer_set_witness:
  "question_add demo_forms demo_store 7 (POST ''5-1=?'') 1 =
     (Redirect (To_question_change 1 3), demo_store1) \<and>
   question_change demo_forms None demo_store1 7 (POST (''5-2=?'', three_forms)) 1 3 =
     (Redirect (To_quiz_change 1), demo_store2) \<and>
   map answer_text (question_answers demo_store2 3) = [''3'', ''4'', ''5''] \<and>
   question_change demo_forms None demo_store2 7 (POST (''5-2=?'', replace_forms)) 1 3 =
     (Redirect (To_quiz_change 1), demo_store3) \<and>
   length (submitted_answers (question_answers demo_store2 3) replace_forms) = 3 \<and>
   length (question_answers demo_store3 3) = 3 \<and>
   map answer_text (question_answers demo_store3 3) = [''4'', ''40'', ''44'']"
proof -
  have unique: "distinct (map answer_pk (answers demo_store2))"
    by (simp add: demo_store2_eq demo_defs)
  have rendered: "map af_id (filter af_initial replace_forms) =
      map (\<lambda>a. Some (answer_pk a)) (question_answers demo_store2 3)"
    by (simp add: demo_store2_eq demo_defs question_answers_def replace_forms_def)
  have prior: "map answer_text (question_answers demo_store2 3) = [''3'', ''4'', ''5'']"
    by (simp add: demo_store2_eq demo_defs question_answers_def)
  note r = question_change_rendered_answer_set [OF unique replace_eval rendered]
  from r have len: "length (question_answers demo_store3 3) = 3"
    by (simp add: replace_size)
  from r have "map (\<lambda>a. (answer_text a, answer_is_correct a)) (question_answers demo_store3 3) =
      map (\<lambda>f. (af_text f, af_is_correct f))
        (filter af_initial (submitted_answers (question_answers demo_store2 3) replace_forms)) @
      map (\<lambda>f. (af_text f, af_is_correct f))
        (filter (\<lambda>f. \<not> af_initial f)
           (submitted_answers (question_answers demo_store2 3) replace_forms))"
    by simp
  from arg_cong [OF this, of "map fst"]
  have texts: "map answer_text (question_answers demo_store3 3) = [''4'', ''40'', ''44'']"
    by (simp add: o_def demo_store2_eq demo_defs view_defs replace_forms_def)
  from add_eval change_eval prior replace_eval replace_size len texts show ?thesis
    by (intro conjI)
qed

section \<open>Properties: grading review\<close>

lemma answer_loop_eq:
  "answer_loop s st as acc = acc @ filter (selected_by s st) as"
  by (induction as arbitrary: acc) auto

lemma question_loop_eq:
  "question_loop s st qas acc = acc @ filter (selected_by s st) (concat qas)"
  by (induction qas arbitrary: acc) (auto simp: answer_loop_eq)

lemma map_of_answers_dict_other:
  "t \<notin> question_text ` set qs \<Longrightarrow> map_of (answers_dict s qs d) t = map_of d t"
  by (induction qs arbitrary: d) (auto simp: update_conv')

lemma answers_dict_append:
  "answers_dict s (xs @ ys) d = answers_dict s ys (answers_dict s xs d)"
  by (induction xs arbitrary: d) auto

lemma map_of_answers_dict_last:
  assumes "question_text q \<notin> question_text ` set ys"
  shows "map_of (answers_dict s (xs @ q # ys) d) (question_text q) =
         Some (question_answers s (question_pk q))"
  using assms by (simp add: answers_dict_append map_of_answers_dict_other update_conv')

lemma keys_answers_dict:
  "set (map fst (answers_dict s qs d)) = set (map fst d) \<union> question_text ` set qs"
proof (induction qs arbitrary: d)
  case Nil
  show ?case by simp
next
  case (Cons q qs)
  have "set (map fst (AList.update (question_text q) (question_answers s (question_pk q)) d)) =
        insert (question_text q) (set (map fst d))"
    using dom_update [of "question_text q" "question_answers s (question_pk q)" d]
    by (simp add: dom_map_of_conv_image_fst)
  with Cons.IH show ?case by auto
qed

lemma distinct_answers_dict:
  "distinct (map fst d) \<Longrightarrow> distinct (map fst (answers_dict s qs d))"
  by (induction qs arbitrary: d) (auto simp: distinct_update)

lemma view_students_answers_Inr:
  assumes "view_students_answers s user zpk st = Inr c"
  shows "\<exists>z. find_quiz s user zpk = Inr z \<and> filter (\<lambda>p. p = st) (students s) = [st] \<and>
     c = \<lparr>ctx_quiz = z, ctx_answers = answers_dict s (quiz_questions s z) [],
          ctx_students_answers = filter (selected_by s st)
             (concat (map (\<lambda>q. question_answers s (question_pk q)) (quiz_questions s z))),
          ctx_student = st\<rparr>"
proof (cases "find_quiz s user zpk")
  case (Inl e)
  with assms show ?thesis by (simp add: view_students_answers_def)
next
  case z: (Inr z)
  then have rows: "filter (\<lambda>y. quiz_pk y = zpk \<and> quiz_owner y = user) (quizzes s) = [z]"
    unfolding find_quiz_def by (rule get_object_or_404_Inr)
  show ?thesis
  proof (cases "get_object_or_404 (filter (\<lambda>p. p = st) (students s))")
    case (Inl e)
    with z assms show ?thesis by (simp add: view_students_answers_def)
  next
    case (Inr st')
    then have f: "filter (\<lambda>p. p = st) (students s) = [st']" by (rule get_object_or_404_Inr)
    then have "st' \<in> set (filter (\<lambda>p. p = st) (students s))" by simp
    then have "st' = st" by simp
    with z Inr f rows assms show ?thesis
      by (auto simp: view_students_answers_def objects_get_def Let_def question_loop_eq)
  qed
qed

lemmas review_defs = view_students_answers_def find_quiz_def get_object_or_404_def
  objects_get_def quiz_questions_def question_answers_def selected_by_def

lemma twin_eval: "view_students_answers twin_store 7 1 20 = Inr twin_context"
  by (simp add: twin_context_def twin_store_def algebra_def review_defs Let_def)

lemma demo_eval: "view_students_answers demo_store 7 1 20 = Inr demo_context"
  by (simp add: demo_context_def demo_defs review_defs Let_def)

lemma filter_eq_single: "distinct xs \<Longrightarrow> x \<in> set xs \<Longrightarrow> filter (\<lambda>p. p = x) xs = [x]"
  by (induction xs) (auto simp: filter_empty_conv)

lemma find_quiz_rows:
  "find_quiz s user zpk = Inr z \<Longrightarrow>
   filter (\<lambda>y. quiz_pk y = zpk \<and> quiz_owner y = user) (quizzes s) = [z]"
  unfolding find_quiz_def by (rule get_object_or_404_Inr)

lemma view_students_answers_found:
  assumes "find_quiz s user zpk = Inr z" "filter (\<lambda>p. p = st) (students s) = [st]"
  shows "view_students_answers s user zpk st =
     Inr \<lparr>ctx_quiz = z, ctx_answers = answers_dict s (quiz_questions s z) [],
          ctx_students_answers = filter (selected_by s st)
             (concat (map (\<lambda>q. question_answers s (question_pk q)) (quiz_questions s z))),
          ctx_student = st\<rparr>"
  using assms find_quiz_rows [OF assms(1)]
  by (simp add: view_students_answers_def get_object_or_404_def objects_get_def Let_def
      question_loop_eq)

lemma view_students_answers_no_student:
  assumes "find_quiz s user zpk = Inr z" "st \<notin> set (students s)"
  shows "view_students_answers s user zpk st = Inl Http404"
proof -
  from assms(2) have "filter (\<lambda>p. p = st) (students s) = []"
    by (auto simp: filter_empty_conv)
  with assms(1) show ?thesis
    by (simp add: view_students_answers_def get_object_or_404_def objects_get_def)
qed

lemma quiz_answers_set:
  "set (concat (map (\<lambda>q. question_answers s (question_pk q)) qs)) =
   {a \<in> set (answers s). answer_question a \<in> question_pk ` set qs}"
  by (auto simp: question_answers_def)


lemma distinct_count_le_1: "distinct xs \<Longrightarrow> count_list xs a \<le> 1"
  by (induction xs) auto

lemma distinct_quiz_answers:
  assumes "distinct (map question_pk qs)" "distinct (answers s)"
  shows "distinct (concat (map (\<lambda>q. question_answers s (question_pk q)) qs))"
  using assms(1)
proof (induction qs)
  case Nil
  show ?case by simp
next
  case (Cons q qs)
  have "set (question_answers s (question_pk q)) \<inter>
        set (concat (map (\<lambda>q. question_answers s (question_pk q)) qs)) = {}"
    using Cons.prems by (auto simp: question_answers_def) (metis imageI)
  moreover have "distinct (question_answers s (question_pk q))"
    using assms(2) by (simp add: question_answers_def)
  ultimately show ?case using Cons by simp
qed


text \<open>
  C6 as it is stated fails where two questions of a quiz have the same text: the first
  question of the twin store is a question of the quiz, and the mapping does not take its
  text to its answers.
\<close>

theorem view_students_answers_twin_counterexample:
  "view_students_answers twin_store 7 1 20 = Inr twin_context \<and>
   hd (questions twin_store) \<in> set (quiz_questions twin_store algebra) \<and>
   map_of (ctx_answers twin_context) (question_text (hd (questions twin_store))) \<noteq>
     Some (question_answers twin_store (question_pk (hd (questions twin_store))))"
proof -
  have q: "hd (questions twin_store) \<in> set (quiz_questions twin_store algebra)"
    by (simp add: twin_store_def algebra_def quiz_questions_def)
  have m: "map_of (ctx_answers twin_context) (question_text (hd (questions twin_store))) \<noteq>
     Some (question_answers twin_store (question_pk (hd (questions twin_store))))"
    by (simp add: twin_context_def twin_store_def question_answers_def)
  from twin_eval q m show ?thesis by (intro conjI)
qed

text \<open>
  C6, as the code has it. For a quiz the requesting teacher owns: an unknown student gives
  the not-found error, a known one gives a context; the context maps the text of every
  question that no later question of the quiz shares its text with to all answers of that
  question; its list of selected answers is the list of the quiz's answers, question by
  question, that a record links to the student; and that list is empty when no record
  links the student to an answer of the quiz.
\<close>

theorem view_students_answers_review:
  assumes "find_quiz s user zpk = Inr z"
  shows "(st \<notin> set (students s) \<longrightarrow> view_students_answers s user zpk st = Inl Http404) \<and>
         (st \<in> set (students s) \<and> distinct (students s) \<longrightarrow>
            (\<exists>c. view_students_answers s user zpk st = Inr c)) \<and>
         (\<forall>c. view_students_answers s user zpk st = Inr c \<longrightarrow>
            ctx_quiz c = z \<and> ctx_student c = st \<and>
            (\<forall>xs q ys. quiz_questions s z = xs @ q # ys \<and>
                 question_text q \<notin> question_text ` set ys \<longrightarrow>
               map_of (ctx_answers c) (question_text q) =
                 Some (question_answers s (question_pk q))) \<and>
            ctx_students_answers c =
              filter (selected_by s st)
                (concat (map (\<lambda>q. question_answers s (question_pk q)) (quiz_questions s z))) \<and>
            ((\<forall>r\<in>set (student_answers s). sa_student r = st \<longrightarrow>
                 sa_answer r \<notin> answer_pk `
                   set (concat (map (\<lambda>q. question_answers s (question_pk q))
                          (quiz_questions s z)))) \<longrightarrow>
               ctx_students_answers c = []))"
proof (intro conjI impI allI)
  assume "st \<notin> set (students s)"
  with assms show "view_students_answers s user zpk st = Inl Http404"
    by (rule view_students_answers_no_student)
next
  assume "st \<in> set (students s) \<and> distinct (students s)"
  then have "filter (\<lambda>p. p = st) (students s) = [st]" by (simp add: filter_eq_single)
  from view_students_answers_found [OF assms this]
  show "\<exists>c. view_students_answers s user zpk st = Inr c" by blast
next
  fix c assume c: "view_students_answers s user zpk st = Inr c"
  from view_students_answers_Inr [OF c] assms
  have eq: "c = \<lparr>ctx_quiz = z, ctx_answers = answers_dict s (quiz_questions s z) [],
          ctx_students_answers = filter (selected_by s st)
             (concat (map (\<lambda>q. question_answers s (question_pk q)) (quiz_questions s z))),
          ctx_student = st\<rparr>"
    by auto
  show "ctx_quiz c = z" by (simp add: eq)
  show "ctx_student c = st" by (simp add: eq)
  show sel: "ctx_students_answers c =
      filter (selected_by s st)
        (concat (map (\<lambda>q. question_answers s (question_pk q)) (quiz_questions s z)))"
    by (simp add: eq)
  {
    fix xs q ys
    assume "quiz_questions s z = xs @ q # ys \<and> question_text q \<notin> question_text ` set ys"
    then show "map_of (ctx_answers c) (question_text q) = Some (question_answers s (question_pk q))"
      by (simp add: eq map_of_answers_dict_last)
  }
  {
    assume none: "\<forall>r\<in>set (student_answers s). sa_student r = st \<longrightarrow>
       sa_answer r \<notin> answer_pk `
         set (concat (map (\<lambda>q. question_answers s (question_pk q)) (quiz_questions s z)))"
    show "ctx_students_answers c = []"
      unfolding sel filter_empty_conv
    proof (intro ballI notI)
      fix a
      assume a: "a \<in> set (concat (map (\<lambda>q. question_answers s (question_pk q)) (quiz_questions s z)))"
        and "selected_by s st a"
      then obtain r where "r \<in> set (student_answers s)" "sa_answer r = answer_pk a" "sa_student r = st"
        by (auto simp: selected_by_def list_ex_iff)
      with none a show False by (metis imageI)
    qed
  }
qed


theorem view_students_answers_review_witness:
  "find_quiz demo_store 7 1 = Inr algebra \<and>
   view_students_answers demo_store 7 1 22 = Inl Http404 \<and>
   view_students_answers demo_store 7 1 20 = Inr demo_context \<and>
   map_of (ctx_answers demo_context) ''2+2=?'' = Some (question_answers demo_store 1) \<and>
   map answer_pk (ctx_students_answers demo_context) = [2, 6]"
proof -
  have z: "find_quiz demo_store 7 1 = Inr algebra"
    by (simp add: demo_defs review_defs)
  have "22 \<notin> set (students demo_store)" by (simp add: demo_defs)
  with view_students_answers_review [OF z, of 22]
  have nf: "view_students_answers demo_store 7 1 22 = Inl Http404" by blast
  have qs: "quiz_questions demo_store algebra = [] @ hd demo_questions # tl demo_questions \<and>
      question_text (hd demo_questions) \<notin> question_text ` set (tl demo_questions)"
    by (simp add: demo_defs quiz_questions_def)
  with view_students_answers_review [OF z, of 20] demo_eval
  have "map_of (ctx_answers demo_context) (question_text (hd demo_questions)) =
      Some (question_answers demo_store (question_pk (hd demo_questions)))"
    by blast
  then have m: "map_of (ctx_answers demo_context) ''2+2=?'' = Some (question_answers demo_store 1)"
    by (simp add: demo_questions_def)
  have "map answer_pk (ctx_students_answers demo_context) = [2, 6]"
    by (simp add: demo_context_def demo_answers_def)
  with z nf demo_eval m show ?thesis by simp
qed

text \<open>
  C9. The mapping of the context is keyed by question text: its keys are distinct, they
  are the texts of the quiz's questions, so there are as many entries as distinct texts;
  and where two questions have the same text, the entry holds the answers of the later
  one (the last with that text).
\<close>

theorem answers_dict_keyed_by_text:
  assumes "view_students_answers s user zpk st = Inr c"
  shows "distinct (map fst (ctx_answers c)) \<and>
         set (map fst (ctx_answers c)) = question_text ` set (quiz_questions s (ctx_quiz c)) \<and>
         length (ctx_answers c) = card (question_text ` set (quiz_questions s (ctx_quiz c))) \<and>
         (\<forall>xs q1 ms q2 ys.
            quiz_questions s (ctx_quiz c) = xs @ q1 # ms @ q2 # ys \<and>
            question_text q1 = question_text q2 \<and>
            question_text q2 \<notin> question_text ` set ys \<longrightarrow>
            map_of (ctx_answers c) (question_text q1) =
              Some (question_answers s (question_pk q2)))"
proof -
  from view_students_answers_Inr [OF assms] obtain z where
    eq: "c = \<lparr>ctx_quiz = z, ctx_answers = answers_dict s (quiz_questions s z) [],
          ctx_students_answers = filter (selected_by s st)
             (concat (map (\<lambda>q. question_answers s (question_pk q)) (quiz_questions s z))),
          ctx_student = st\<rparr>"
    by auto
  have d: "distinct (map fst (ctx_answers c))"
    by (simp add: eq distinct_answers_dict)
  have k: "set (map fst (ctx_answers c)) = question_text ` set (quiz_questions s (ctx_quiz c))"
    using keys_answers_dict [of s "quiz_questions s z" "[]"] by (simp add: eq)
  have "length (ctx_answers c) = length (map fst (ctx_answers c))" by simp
  also have "\<dots> = card (set (map fst (ctx_answers c)))"
    using d by (simp only: distinct_card)
  finally have l: "length (ctx_answers c) = card (question_text ` set (quiz_questions s (ctx_quiz c)))"
    by (simp only: k)
  have m: "map_of (ctx_answers c) (question_text q1) = Some (question_answers s (question_pk q2))"
    if "quiz_questions s (ctx_quiz c) = xs @ q1 # ms @ q2 # ys \<and>
        question_text q1 = question_text q2 \<and>
        question_text q2 \<notin> question_text ` set ys" for xs q1 ms q2 ys
  proof -
    from that have "quiz_questions s z = (xs @ q1 # ms) @ q2 # ys" by (simp add: eq)
    with that show ?thesis
      using map_of_answers_dict_last [of q2 ys s "xs @ q1 # ms" "[]"] by (simp add: eq)
  qed
  from d k l m show ?thesis by blast
qed


theorem answers_dict_keyed_by_text_witness:
  "view_students_answers twin_store 7 1 20 = Inr twin_context \<and>
   length (quiz_questions twin_store algebra) = 2 \<and>
   length (ctx_answers twin_context) = 1 \<and>
   map_of (ctx_answers twin_context) ''1+1=?'' = Some (question_answers twin_store 2)"
proof -
  have two: "length (quiz_questions twin_store algebra) = 2"
    by (simp add: twin_store_def algebra_def quiz_questions_def)
  from answers_dict_keyed_by_text [OF twin_eval]
  have "length (ctx_answers twin_context) =
      card (question_text ` set (quiz_questions twin_store (ctx_quiz twin_context)))"
    by blast
  then have one: "length (ctx_answers twin_context) = 1"
    by (simp add: twin_context_def twin_store_def algebra_def quiz_questions_def)
  have "map_of (ctx_answers twin_context) ''1+1=?'' = Some (question_answers twin_store 2)"
    by (simp add: twin_context_def)
  with twin_eval two one show ?thesis by simp
qed

text \<open>
  C10. With unique primary keys, no answer occurs twice in the list of selected answers,
  however many records link the student to it: an answer is in the list exactly when it
  is an answer of a question of the quiz and at least one record links the student to it.
\<close>

theorem students_answers_at_most_once:
  assumes "unique_pks s" and "view_students_answers s user zpk st = Inr c"
  shows "distinct (map answer_pk (ctx_students_answers c)) \<and>
         (\<forall>a. count_list (ctx_students_answers c) a \<le> 1) \<and>
         (\<forall>a. a \<in> set (ctx_students_answers c) \<longleftrightarrow>
            a \<in> set (answers s) \<and>
            answer_question a \<in> question_pk ` set (quiz_questions s (ctx_quiz c)) \<and>
            (\<exists>r\<in>set (student_answers s). sa_answer r = answer_pk a \<and> sa_student r = st))"
proof -
  from view_students_answers_Inr [OF assms(2)] obtain z where
    eq: "c = \<lparr>ctx_quiz = z, ctx_answers = answers_dict s (quiz_questions s z) [],
          ctx_students_answers = filter (selected_by s st)
             (concat (map (\<lambda>q. question_answers s (question_pk q)) (quiz_questions s z))),
          ctx_student = st\<rparr>"
    by auto
  let ?all = "concat (map (\<lambda>q. question_answers s (question_pk q)) (quiz_questions s z))"
  from assms(1) have da: "distinct (map answer_pk (answers s))"
    and dq: "distinct (map question_pk (questions s))"
    by (simp_all add: unique_pks_def)
  from da have inj: "inj_on answer_pk (set (answers s))" and das: "distinct (answers s)"
    by (simp_all add: distinct_map)
  from dq have "distinct (map question_pk (quiz_questions s z))"
    unfolding quiz_questions_def by (rule distinct_map_filter)
  then have dall: "distinct ?all" using das by (rule distinct_quiz_answers)
  have sub: "set (ctx_students_answers c) \<subseteq> set (answers s)"
    by (auto simp: eq question_answers_def)
  have dc: "distinct (ctx_students_answers c)" using dall by (simp add: eq)
  have "inj_on answer_pk (set (ctx_students_answers c))"
    using inj sub by (rule inj_on_subset)
  with dc have 1: "distinct (map answer_pk (ctx_students_answers c))"
    by (simp add: distinct_map)
  have 2: "count_list (ctx_students_answers c) a \<le> 1" for a
    using dc by (rule distinct_count_le_1)
  have 3: "a \<in> set (ctx_students_answers c) \<longleftrightarrow>
            a \<in> set (answers s) \<and>
            answer_question a \<in> question_pk ` set (quiz_questions s (ctx_quiz c)) \<and>
            (\<exists>r\<in>set (student_answers s). sa_answer r = answer_pk a \<and> sa_student r = st)" for a
    by (auto simp: eq question_answers_def selected_by_def list_ex_iff)
  from 1 2 3 show ?thesis by blast
qed

theorem students_answers_at_most_once_witness:
  "unique_pks demo_store \<and>
   view_students_answers demo_store 7 1 20 = Inr demo_context \<and>
   length (filter (\<lambda>r. sa_answer r = 2 \<and> sa_student r = 20) (student_answers demo_store)) = 2 \<and>
   map answer_pk (ctx_students_answers demo_context) = [2, 6] \<and>
   distinct (map answer_pk (ctx_students_answers demo_context))"
proof -
  have u: "unique_pks demo_store"
    by (simp add: unique_pks_def demo_defs)
  have twice: "length (filter (\<lambda>r. sa_answer r = 2 \<and> sa_student r = 20)
      (student_answers demo_store)) = 2"
    by (simp add: demo_defs)
  have pks: "map answer_pk (ctx_students_answers demo_context) = [2, 6]"
    by (simp add: demo_context_def demo_answers_def)
  from students_answers_at_most_once [OF u demo_eval]
  have "distinct (map answer_pk (ctx_students_answers demo_context))" by blast
  with u demo_eval twice pks show ?thesis by simp
qed

section \<open>Properties: PDF export\<close>

lemma answers_loop_cells:
  "cur_style pdf = Regular \<Longrightarrow> cur_size pdf = 14 \<Longrightarrow>
   answers_loop as n pdf =
     pdf\<lparr>cells := cells pdf @ map (\<lambda>(j, a). answer_line j a) (enumerate n as)\<rparr>"
  by (induction as arbitrary: n pdf) (simp_all add: cell_def answer_line_def)

lemma questions_loop_cells:
  "cur_style pdf = Regular \<Longrightarrow> cur_size pdf = 14 \<Longrightarrow>
   questions_loop s qs n pdf =
     pdf\<lparr>cells := cells pdf @
       concat (map (\<lambda>(i, q). question_block s i q) (enumerate n qs))\<rparr>"
proof (induction qs arbitrary: n pdf)
  case Nil
  show ?case by simp
next
  case (Cons q qs)
  show ?case
    by (simp add: Cons.IH Cons.prems answers_loop_cells cell_def set_font_def
        question_block_def blank_line_def heading_line_def)
qed

text \<open>
  C7 as it is stated fails for a quiz whose name is not the name of a file that can be
  written: with a slash in the name and no such directory, the view raises and no document
  is produced.
\<close>

theorem get_quiz_in_pdf_slash_counterexample:
  "find_quiz slash_store 7 1 = Inr slash_quiz \<and>
   get_quiz_in_pdf flat_directory slash_store 7 1 = Inl OSError"
  by (simp add: get_quiz_in_pdf_def find_quiz_def get_object_or_404_def objects_get_def
      slash_store_def slash_quiz_def flat_directory_def quiz_questions_def Let_def)

text \<open>
  C7, as the code has it. For a quiz the requesting teacher owns, the document handed to
  \<^verbatim>\<open>pdf.output\<close> under the name of the quiz is the title line with the quiz name in bold
  16, followed for each question in catalog order by a blank line, a bold 14 heading with
  the running number and the question text, a blank line, and the answers of the question
  in regular 14, numbered from 1 again for each question. The view returns that document
  when the call writes the file, and raises the error of the call when it does not.
\<close>

theorem get_quiz_in_pdf_document:
  assumes "find_quiz s user zpk = Inr z"
  shows "get_quiz_in_pdf pdf_output s user zpk =
           (case pdf_output (quiz_name z @ ''.pdf'') (quiz_document s z) of
              Some e \<Rightarrow> Inl e
            | None \<Rightarrow> Inr (quiz_name z @ ''.pdf'', quiz_document s z))"
proof -
  let ?pdf = "set_font Regular 14 (cell (quiz_name z) (set_font Bold 16 FPDF))"
  have font: "cur_style ?pdf = Regular" "cur_size ?pdf = 14"
    by (simp_all add: set_font_def)
  have "cells (questions_loop s (quiz_questions s z) 1 ?pdf) = quiz_document s z"
    by (simp add: questions_loop_cells [OF font] quiz_document_def title_line_def)
      (simp add: set_font_def cell_def FPDF_def)
  then have loop: "cells (questions_loop s (quiz_questions s z) (Suc 0) ?pdf) = quiz_document s z"
    by simp
  show ?thesis
    by (simp add: get_quiz_in_pdf_def assms find_quiz_rows [OF assms] objects_get_def Let_def
        loop split: option.splits)
qed

theorem get_quiz_in_pdf_document_witness:
  "find_quiz demo_store 7 1 = Inr algebra \<and>
   get_quiz_in_pdf flat_directory demo_store 7 1 =
     Inr (''Algebra.pdf'',
       [\<lparr>line_style = Bold, line_size = 16, line_text = ''Algebra''\<rparr>,
        \<lparr>line_style = Regular, line_size = 14, line_text = []\<rparr>,
        \<lparr>line_style = Bold, line_size = 14, line_text = ''1. 2+2=?''\<rparr>,
        \<lparr>line_style = Regular, line_size = 14, line_text = []\<rparr>,
        \<lparr>line_style = Regular, line_size = 14, line_text = ''1. 3''\<rparr>,
        \<lparr>line_style = Regular, line_size = 14, line_text = ''2. 4''\<rparr>,
        \<lparr>line_style = Regular, line_size = 14, line_text = ''3. 5''\<rparr>,
        \<lparr>line_style = Regular, line_size = 14, line_text = ''4. 6''\<rparr>,
        \<lparr>line_style = Regular, line_size = 14, line_text = []\<rparr>,
        \<lparr>line_style = Bold, line_size = 14, line_text = ''2. 3*3=?''\<rparr>,
        \<lparr>line_style = Regular, line_size = 14, line_text = []\<rparr>,
        \<lparr>line_style = Regular, line_size = 14, line_text = ''1. 6''\<rparr>,
        \<lparr>line_style = Regular, line_size = 14, line_text = ''2. 9''\<rparr>])"
proof -
  have z: "find_quiz demo_store 7 1 = Inr algebra"
    by (simp add: demo_defs find_quiz_def get_object_or_404_def objects_get_def)
  have doc: "quiz_document demo_store algebra =
       [\<lparr>line_style = Bold, line_size = 16, line_text = ''Algebra''\<rparr>,
        \<lparr>line_style = Regular, line_size = 14, line_text = []\<rparr>,
        \<lparr>line_style = Bold, line_size = 14, line_text = ''1. 2+2=?''\<rparr>,
        \<lparr>line_style = Regular, line_size = 14, line_text = []\<rparr>,
        \<lparr>line_style = Regular, line_size = 14, line_text = ''1. 3''\<rparr>,
        \<lparr>line_style = Regular, line_size = 14, line_text = ''2. 4''\<rparr>,
        \<lparr>line_style = Regular, line_size = 14, line_text = ''3. 5''\<rparr>,
        \<lparr>line_style = Regular, line_size = 14, line_text = ''4. 6''\<rparr>,
        \<lparr>line_style = Regular, line_size = 14, line_text = []\<rparr>,
        \<lparr>line_style = Bold, line_size = 14, line_text = ''2. 3*3=?''\<rparr>,
        \<lparr>line_style = Regular, line_size = 14, line_text = []\<rparr>,
        \<lparr>line_style = Regular, line_size = 14, line_text = ''1. 6''\<rparr>,
        \<lparr>line_style = Regular, line_size = 14, line_text = ''2. 9''\<rparr>]"
    by (simp add: quiz_document_def question_block_def title_line_def blank_line_def
        heading_line_def answer_line_def quiz_questions_def question_answers_def
        demo_defs str_nat.simps)
  from get_quiz_in_pdf_document [OF z, of flat_directory] have
    "get_quiz_in_pdf flat_directory demo_store 7 1 =
       Inr (quiz_name algebra @ ''.pdf'', quiz_document demo_store algebra)"
    by (simp add: algebra_def flat_directory_def)
  with z doc show ?thesis by (simp add: algebra_def)
qed

section \<open>Properties: analytics\<close>

lemma entries_loop_eq:
  "entries_loop es labels data = (labels @ map (\<lambda>e. strftime (fst e)) es, data @ map snd es)"
  by (induction es arbitrary: labels data) auto

lemma group_count_keys:
  "set (map fst (group_count ds groups)) = set (map fst groups) \<union> set ds"
proof (induction ds arbitrary: groups)
  case Nil
  show ?case by simp
next
  case (Cons d ds)
  show ?case
  proof (cases "map_of groups d")
    case None
    with Cons.IH show ?thesis by auto
  next
    case (Some c)
    then have "d \<in> set (map fst groups)"
      by (metis map_of_eq_None_iff option.distinct(1) set_map)
    moreover have "set (map fst (AList.update d (c + 1) groups)) = insert d (set (map fst groups))"
      using dom_update [of d "c + 1" groups] by (simp add: dom_map_of_conv_image_fst)
    ultimately show ?thesis using Some Cons.IH by auto
  qed
qed

lemma group_count_distinct:
  "distinct (map fst groups) \<Longrightarrow> distinct (map fst (group_count ds groups))"
proof (induction ds arbitrary: groups)
  case Nil
  then show ?case by simp
next
  case (Cons d ds)
  show ?case
  proof (cases "map_of groups d")
    case None
    then have "d \<notin> set (map fst groups)" by (simp add: map_of_eq_None_iff)
    with Cons None show ?thesis by simp
  next
    case (Some c)
    with Cons show ?thesis by (simp add: distinct_update)
  qed
qed

lemma group_count_map_of:
  "distinct (map fst groups) \<Longrightarrow>
   map_of (group_count ds groups) d =
     (if d \<in> set ds
      then Some (count_list ds d + (case map_of groups d of None \<Rightarrow> 0 | Some c \<Rightarrow> c))
      else map_of groups d)"
proof (induction ds arbitrary: groups)
  case Nil
  then show ?case by simp
next
  case (Cons x ds)
  show ?case
  proof (cases "map_of groups x")
    case None
    then have nx: "x \<notin> set (map fst groups)" by (simp add: map_of_eq_None_iff)
    with Cons.prems have "distinct (map fst (groups @ [(x, 1)]))" by simp
    from Cons.IH [OF this] None nx show ?thesis
      by (auto simp: map_add_def split: option.splits)
  next
    case (Some c)
    from Cons.prems have "distinct (map fst (AList.update x (c + 1) groups))"
      by (simp add: distinct_update)
    from Cons.IH [OF this] Some show ?thesis
      by (auto simp: update_conv' split: option.splits)
  qed
qed


lemma count_list_map:
  "count_list (map f xs) d = length (filter (\<lambda>t. f t = d) xs)"
  by (induction xs) auto

lemmas analytics_defs = get_analytics_by_count_taken_quizzes_def analytics_queryset_def
  owned_taken_quizzes_def TruncDate_def strftime_def zero_pad_def str_nat.simps

text \<open>
  C4 as it is stated asks for the entries in ascending order of date. The query imposes no
  order: where the database hands out the groups as it met them, the attempt of 3 January,
  stored first, comes before the two of 1 January.
\<close>

theorem analytics_not_ascending_counterexample:
  "get_analytics_by_count_taken_quizzes id demo_store 7 =
     ([''01/03/2024'', ''01/01/2024''], [1, 2]) \<and>
   \<not> ascending_dates (map fst (analytics_queryset id demo_store 7))"
proof -
  have q: "analytics_queryset id demo_store 7 =
      [(\<lparr>year = 2024, month = 1, day = 3\<rparr>, 1), (\<lparr>year = 2024, month = 1, day = 1\<rparr>, 2)]"
    by (simp add: analytics_defs demo_defs)
  have "get_analytics_by_count_taken_quizzes id demo_store 7 =
     ([''01/03/2024'', ''01/01/2024''], [1, 2])"
    unfolding get_analytics_by_count_taken_quizzes_def q
    by (simp add: strftime_def zero_pad_def str_nat.simps)
  moreover have "\<not> ascending_dates (map fst (analytics_queryset id demo_store 7))"
    unfolding q by (simp add: ascending_dates_def date_less_def)
  ultimately show ?thesis by simp
qed

text \<open>
  C4, as the code has it. Whatever order the database hands the groups out in, the view
  returns the labels and the counts of the same entries, position by position; there is
  one entry for every date on which a quiz of the teacher was taken (no date is filtered
  out, and a date without attempts has no entry), each date once, formatted by
  \<^verbatim>\<open>strftime("%m/%d/%Y")\<close>, and its count is the number of the teacher's attempts on that
  date.
\<close>

theorem analytics_one_entry_per_date:
  assumes perm: "\<And>g. mset (row_order g) = mset g"
  shows "get_analytics_by_count_taken_quizzes row_order s user =
           (map (\<lambda>e. strftime (fst e)) (analytics_queryset row_order s user),
            map snd (analytics_queryset row_order s user)) \<and>
         distinct (map fst (analytics_queryset row_order s user)) \<and>
         set (map fst (analytics_queryset row_order s user)) =
           (\<lambda>t. TruncDate (taken_date t)) ` set (owned_taken_quizzes s user) \<and>
         (\<forall>(d, c) \<in> set (analytics_queryset row_order s user).
            c = length (filter (\<lambda>t. TruncDate (taken_date t) = d) (owned_taken_quizzes s user)) \<and>
            0 < c)"
proof -
  let ?ds = "map (\<lambda>t. TruncDate (taken_date t)) (owned_taken_quizzes s user)"
  let ?G = "group_count ?ds []"
  let ?E = "analytics_queryset row_order s user"
  have E: "?E = row_order ?G" by (simp add: analytics_queryset_def)
  have m: "mset ?E = mset ?G" unfolding E by (rule perm)
  then have setE: "set ?E = set ?G" by (rule mset_eq_setD)
  have dG: "distinct (map fst ?G)" by (rule group_count_distinct) simp
  from m have "mset (map fst ?E) = mset (map fst ?G)" by simp
  from mset_eq_imp_distinct_iff [OF this] dG have dE: "distinct (map fst ?E)" by blast
  have keys: "set (map fst ?E) = (\<lambda>t. TruncDate (taken_date t)) ` set (owned_taken_quizzes s user)"
    using group_count_keys [of ?ds "[]"] setE by simp
  have cnt: "c = length (filter (\<lambda>t. TruncDate (taken_date t) = d) (owned_taken_quizzes s user)) \<and> 0 < c"
    if "(d, c) \<in> set ?E" for d c
  proof -
    from that setE have "(d, c) \<in> set ?G" by simp
    with dG have "map_of ?G d = Some c" by (rule map_of_is_SomeI)
    moreover have "map_of ?G d = (if d \<in> set ?ds then Some (count_list ?ds d) else None)"
      using group_count_map_of [of "[]" ?ds d] by simp
    ultimately have in_ds: "d \<in> set ?ds" and c: "c = count_list ?ds d"
      by (auto split: if_splits)
    from in_ds have "count_list ?ds d \<noteq> 0" by (simp add: count_list_0_iff)
    with c show ?thesis by (simp add: count_list_map)
  qed
  have "get_analytics_by_count_taken_quizzes row_order s user =
      (map (\<lambda>e. strftime (fst e)) ?E, map snd ?E)"
    by (simp add: get_analytics_by_count_taken_quizzes_def entries_loop_eq)
  with dE keys cnt show ?thesis by blast
qed

theorem analytics_one_entry_per_date_witness:
  "get_analytics_by_count_taken_quizzes rev demo_store 7 =
     ([''01/01/2024'', ''01/03/2024''], [2, 1]) \<and>
   distinct (map fst (analytics_queryset rev demo_store 7))"
proof -
  have perm: "\<And>g :: (date \<times> nat) list. mset (rev g) = mset g" by simp
  have q: "analytics_queryset rev demo_store 7 =
      [(\<lparr>year = 2024, month = 1, day = 1\<rparr>, 2), (\<lparr>year = 2024, month = 1, day = 3\<rparr>, 1)]"
    by (simp add: analytics_defs demo_defs)
  from analytics_one_entry_per_date [of rev demo_store 7, OF perm]
  have r: "get_analytics_by_count_taken_quizzes rev demo_store 7 =
           (map (\<lambda>e. strftime (fst e)) (analytics_queryset rev demo_store 7),
            map snd (analytics_queryset rev demo_store 7))"
    and d: "distinct (map fst (analytics_queryset rev demo_store 7))"
    by blast+
  from r have "get_analytics_by_count_taken_quizzes rev demo_store 7 =
     ([''01/01/2024'', ''01/03/2024''], [2, 1])"
    unfolding q by (simp add: strftime_def zero_pad_def str_nat.simps)
  with d show ?thesis by simp
qed


section \<open>Properties: catalog listing\<close>

text \<open>
  What holds of the listing: a subject value that \<^verbatim>\<open>isdigit()\<close> rejects and an ordering key
  other than \<^verbatim>\<open>name\<close> and \<^verbatim>\<open>-name\<close> are ignored, a subject value of decimal digits never
  raises, and every row of a result is a quiz of the user with its two counts.
\<close>

lemma get_queryset_ignores_non_digit:
  "\<not> isdigit ty \<Longrightarrow>
   get_queryset s user find_query (Some ty) ordering_query =
   get_queryset s user find_query None ordering_query"
  by (simp add: get_queryset_def)

lemma get_queryset_ignores_unknown_ordering:
  "key \<noteq> ''name'' \<Longrightarrow> key \<noteq> ''-name'' \<Longrightarrow>
   get_queryset s user find_query type_query (Some key) =
   get_queryset s user find_query type_query None"
  by (simp add: get_queryset_def Let_def split: sum.splits)

lemma get_queryset_decimal_subject:
  "ty \<noteq> [] \<Longrightarrow> list_all is_decimal_char ty \<Longrightarrow>
   \<exists>rows. get_queryset s user find_query (Some ty) ordering_query = Inr rows"
  by (simp add: get_queryset_def Let_def filter_subject_def py_int_def)

lemma get_queryset_rows:
  assumes "get_queryset s user find_query type_query ordering_query = Inr rows"
  shows "\<forall>r\<in>set rows. r = annotate s (row_quiz r) \<and> row_quiz r \<in> set (quizzes s) \<and>
           quiz_owner (row_quiz r) = user"
proof -
  have base: "\<forall>r\<in>set (map (annotate s) (user_quizzes s user)).
      r = annotate s (row_quiz r) \<and> row_quiz r \<in> set (quizzes s) \<and> quiz_owner (row_quiz r) = user"
    by (auto simp: user_quizzes_def annotate_def)
  have "set rows \<subseteq> set (map (annotate s) (user_quizzes s user))"
    using assms
    by (auto simp: get_queryset_def Let_def filter_subject_def order_by_def
        split: option.splits sum.splits if_splits)
  with base show ?thesis by blast
qed

lemma get_queryset_demo:
  "get_queryset demo_store 7 (Some ''aLG'') (Some ''1'') (Some ''-name'') =
     Inr [\<lparr>row_quiz = algebra, questions_count = 2, taken_count = 3\<rparr>]"
  by (simp add: get_queryset_def isdigit_def is_decimal_char_def is_superscript_digit_def
      filter_subject_def py_int_def Let_def user_quizzes_def demo_defs icontains_def
      lower_char_def order_by_def annotate_def)

text \<open>
  C5. The listing is to ignore a malformed subject id for every combination of query
  parameters and never to raise. The guard of the view is \<^verbatim>\<open>isdigit()\<close>, which lets the
  superscript two (U+00B2) through; the filter on the subject key then converts the value
  with \<^verbatim>\<open>int()\<close>, and the view raises \<^verbatim>\<open>ValueError\<close> instead of returning the quizzes of
  the teacher.
\<close>

theorem get_queryset_superscript_subject:
  "isdigit [CHR 0xB2] \<and> get_queryset demo_store 7 None (Some [CHR 0xB2]) None = Inl ValueError"
  by (simp add: get_queryset_def isdigit_def is_decimal_char_def is_superscript_digit_def
      filter_subject_def py_int_def Let_def)

end
